theory Spec2Isabelle
  imports Main
begin

section \<open>Python values, exceptions and the constants of \<^verbatim>\<open>download_folder.py\<close>\<close>

text \<open>
  The exceptions that the module raises itself (\<open>RuntimeError\<close>, \<open>ValueError\<close>), the
  built-in ones that its subscripts, iterations and string concatenations raise, the
  interpreter's \<open>RecursionError\<close>, the \<open>OSError\<close>s of \<open>Path.mkdir\<close>, and one constructor
  for whatever a library call (\<open>requests\<close>, \<open>json\<close>, \<open>download\<close>) raises.
\<close>

datatype py_error =
    RuntimeError string
  | ValueError string
  | IndexError
  | KeyError
  | TypeError
  | AttributeError
  | RecursionError
  | FileExistsError
  | FileNotFoundError
  | NotADirectoryError
  | LibraryError string

text \<open>
  What \<open>json.loads\<close> returns: \<open>None\<close>, a bool, an int, a float (\<open>JFloat m e\<close> stands for
  \<open>m * 2 ^ e\<close>), a str, a list or a dict (its keys in order).
\<close>

datatype json =
    JNull
  | JBool bool
  | JInt int
  | JFloat int int
  | JStr string
  | JArr "json list"
  | JObj "(string \<times> json) list"

definition folders_url :: string where
  "folders_url = ''https://drive.google.com/drive/folders/''"

definition files_url :: string where
  "files_url = ''https://drive.google.com/uc?id=''"

definition folder_type :: string where
  "folder_type = ''application/vnd.google-apps.folder''"

text \<open>\<open>v[n]\<close> for a decoded value \<open>v\<close> and a non-negative index \<open>n\<close>.\<close>

fun py_getitem :: "json \<Rightarrow> nat \<Rightarrow> py_error + json" where
  "py_getitem (JArr xs) n = (if n < length xs then Inr (xs ! n) else Inl IndexError)"
| "py_getitem (JStr s) n = (if n < length s then Inr (JStr [s ! n]) else Inl IndexError)"
| "py_getitem (JObj kvs) n = Inl KeyError"
| "py_getitem JNull n = Inl TypeError"
| "py_getitem (JBool b) n = Inl TypeError"
| "py_getitem (JInt i) n = Inl TypeError"
| "py_getitem (JFloat m e) n = Inl TypeError"

text \<open>\<open>for i in v\<close>: the elements of a list, the characters of a str, the keys of a dict.\<close>

fun py_iter :: "json \<Rightarrow> py_error + json list" where
  "py_iter (JArr xs) = Inr xs"
| "py_iter (JStr s) = Inr (map (\<lambda>c. JStr [c]) s)"
| "py_iter (JObj kvs) = Inr (map (\<lambda>kv. JStr (fst kv)) kvs)"
| "py_iter JNull = Inl TypeError"
| "py_iter (JBool b) = Inl TypeError"
| "py_iter (JInt i) = Inl TypeError"
| "py_iter (JFloat m e) = Inl TypeError"

text \<open>\<open>s + v\<close> for a str \<open>s\<close>: defined only when \<open>v\<close> is a str.\<close>

fun py_str_add :: "string \<Rightarrow> json \<Rightarrow> py_error + string" where
  "py_str_add s (JStr t) = Inr (s @ t)"
| "py_str_add s v = Inl TypeError"

section \<open>The two regular expressions\<close>

text \<open>
  \<open>string_regex = '((?:[^'\\]|\\.)*)'\<close>. After the opening quote the body is scanned
  left to right: a quote closes the literal, a backslash takes the next character with
  it (any character but a newline), any other character is taken alone. At every
  position at most one alternative applies, so backtracking never finds a match that
  this scan misses. \<open>lit_body acc cs\<close> returns group 1 and the text after the closing
  quote.
\<close>

fun lit_body :: "string \<Rightarrow> string \<Rightarrow> (string \<times> string) option" where
  "lit_body acc [] = None"
| "lit_body acc (c # cs) =
     (if c = CHR 0x27 then Some (rev acc, cs)
      else if c = CHR 0x5C then
        (case cs of
           [] \<Rightarrow> None
         | d # ds \<Rightarrow> if d = CHR 0x0A then None else lit_body (d # c # acc) ds)
      else lit_body (c # acc) cs)"

text \<open>
  \<open>string_regex.finditer(inner_html)\<close>, as the list of the matches' group 1: the search
  resumes after a match, and one character further where none starts.
\<close>

function string_literals :: "string \<Rightarrow> string list" where
  "string_literals [] = []"
| "string_literals (c # cs) =
     (if c = CHR 0x27 then
        (case lit_body [] cs of
           Some (g, rest) \<Rightarrow> g # string_literals rest
         | None \<Rightarrow> string_literals cs)
      else string_literals cs)"
  by pat_completeness auto
termination
proof (relation "measure length")
  show "wf (measure length)" by simp
next
  fix c :: char and cs x2 x y
  assume m: "lit_body [] cs = Some x2" "(x, y) = x2"
  have shorter: "lit_body acc s = Some (g, rest) \<Longrightarrow> length rest < length s"
    for acc s g rest
  proof (induction acc s rule: lit_body.induct)
    case (1 acc)
    then show ?case by simp
  next
    case (2 acc c cs)
    then show ?case
      by (auto split: if_splits list.splits)
  qed
  from m have "lit_body [] cs = Some (x, y)" by simp
  then have "length y < length cs" by (rule shorter)
  then show "(y, c # cs) \<in> measure length" by simp
qed simp_all

text \<open>\<open>m in s\<close> for two strs.\<close>

fun str_in :: "string \<Rightarrow> string \<Rightarrow> bool" where
  "str_in m [] = (m = [])"
| "str_in m (c # cs) = (take (length m) (c # cs) = m \<or> str_in m cs)"

text \<open>
  Lines 59-76: the first script whose text contains the marker decides; its second
  string literal is the encoded array.
\<close>

fun find_encoded_data :: "string list \<Rightarrow> py_error + string" where
  "find_encoded_data [] = Inl (RuntimeError ''Didn't found _DRIVE_ivd script tag'')"
| "find_encoded_data (inner_html # rest) =
     (if str_in ''_DRIVE_ivd'' inner_html then
        (case drop 1 (string_literals inner_html) of
           [] \<Rightarrow> Inl (RuntimeError ''Couldn't find the folder encoded JS string'')
         | encoded_data # _ \<Rightarrow> Inr encoded_data)
      else find_encoded_data rest)"

text \<open>
  Lines 84-87: \<open>folder_soup.title.contents[0]\<close> matched against
  \<open>folder_name_regex = ^[^ ]+\<close>. A page without a title has \<open>title = None\<close>.
\<close>

fun parse_title :: "string list option \<Rightarrow> py_error + string" where
  "parse_title None = Inl AttributeError"
| "parse_title (Some []) = Inl IndexError"
| "parse_title (Some (t # _)) =
     (let m = takeWhile (\<lambda>c. c \<noteq> CHR '' '') t in
      if m = [] then Inl (ValueError ''Folder name not parsed out in {title}'')
      else Inr m)"

section \<open>One listing page\<close>

text \<open>
  What \<open>get_folder_list\<close> reads of the response of \<open>client.get\<close>: the status code and,
  of the parsed page, the \<open>decode_contents()\<close> of every script element in document
  order and the contents (text nodes) of the title element.
\<close>

record page =
  status_code :: int
  scripts :: "string list"
  title :: "string list option"

text \<open>One of the comprehensions of lines 94-96: \<open>[i[n] for i in folder_contents]\<close>.\<close>

fun column :: "nat \<Rightarrow> json list \<Rightarrow> py_error + json list" where
  "column n [] = Inr []"
| "column n (i # rest) =
     (case py_getitem i n of
        Inl e \<Rightarrow> Inl e
      | Inr v \<Rightarrow> (case column n rest of Inl e \<Rightarrow> Inl e | Inr vs \<Rightarrow> Inr (v # vs)))"

text \<open>
  Lines 59-96 of \<open>get_folder_list\<close>, which touch neither the network nor the cookies:
  the result is the folder's name, its id and the rows \<open>(id, name, type)\<close> that the
  loop of line 98 walks through. \<open>loads\<close> stands for
  \<open>json.loads(bytes(encoded_data, "utf-8").decode("unicode_escape"))\<close>, library code
  that is taken as a parameter.
\<close>

definition parse_listing ::
  "(string \<Rightarrow> py_error + json) \<Rightarrow> page \<Rightarrow> string \<Rightarrow>
     py_error + (string \<times> string \<times> (json \<times> json \<times> json) list)" where
  "parse_listing loads folder_page folder =
     (case find_encoded_data (scripts folder_page) of
        Inl e \<Rightarrow> Inl e
      | Inr encoded_data \<Rightarrow>
     (case loads encoded_data of
        Inl e \<Rightarrow> Inl e
      | Inr folder_arr \<Rightarrow>
     (case py_getitem folder_arr 0 of
        Inl e \<Rightarrow> Inl e
      | Inr first \<Rightarrow>
     (let folder_contents = (if first = JNull then JArr [] else first) in
      case parse_title (title folder_page) of
        Inl e \<Rightarrow> Inl e
      | Inr name \<Rightarrow>
     (case py_iter folder_contents of
        Inl e \<Rightarrow> Inl e
      | Inr rows \<Rightarrow>
     (case column 0 rows of
        Inl e \<Rightarrow> Inl e
      | Inr folder_file_list \<Rightarrow>
     (case column 2 rows of
        Inl e \<Rightarrow> Inl e
      | Inr folder_name_list \<Rightarrow>
     (case column 3 rows of
        Inl e \<Rightarrow> Inl e
      | Inr folder_type_list \<Rightarrow>
          Inr (name, drop 39 folder,
               zip folder_file_list (zip folder_name_list folder_type_list))))))))))"

section \<open>The folder structure and the collaborators\<close>

text \<open>
  The dictionary with the keys \<open>file_name\<close>, \<open>file_id\<close>, \<open>file_type\<close> and
  \<open>file_contents\<close>. A file row stores the decoded values as they come, so the first
  three are arbitrary decoded values; \<open>file_contents\<close> is \<open>None\<close> or a list, whose
  elements are what the recursive call returned (a dictionary or \<open>None\<close>).
\<close>

datatype folder_dict =
  FolderDict (file_name: json) (file_id: json) (file_type: json)
             (file_contents: "folder_dict option list option")

text \<open>
  Everything outside the module: the session \<open>client\<close> (\<open>get\<close> and \<open>cookies.clear\<close>),
  the decoder, \<open>pathlib\<close> (\<open>Path.cwd()\<close>, \<open>Path(output)\<close>, the operator \<open>/\<close> on a str and
  \<open>mkdir(parents=True, exist_ok=True)\<close>) and \<open>download\<close>, which receives the url, the
  path, the options \<open>quiet\<close>, \<open>proxy\<close> and \<open>speed\<close> as one value, and \<open>use_cookies\<close>.
  \<open>'w\<close> is the state of the world they act on (cookies, remote side, file system).
\<close>

record ('w, 'p, 'o) env =
  client_get :: "'w \<Rightarrow> string \<Rightarrow> 'w \<times> (py_error + page)"
  cookies_clear :: "'w \<Rightarrow> 'w"
  loads :: "string \<Rightarrow> py_error + json"
  path_cwd :: "'w \<Rightarrow> 'p"
  path_of :: "string \<Rightarrow> 'p"
  path_join :: "'p \<Rightarrow> string \<Rightarrow> 'p"
  path_mkdir :: "'w \<Rightarrow> 'p \<Rightarrow> 'w \<times> py_error option"
  download :: "'w \<Rightarrow> string \<Rightarrow> 'p \<Rightarrow> 'o \<Rightarrow> bool \<Rightarrow> 'w \<times> (py_error + bool)"

section \<open>\<open>get_folder_list\<close>\<close>

text \<open>
  \<open>get_folder_list\<close> calls itself for every folder row, as deep as the remote folders
  nest; the interpreter stops it with \<open>RecursionError\<close> at its recursion limit. \<open>depth\<close>
  is the number of nested calls that are still allowed. The messages printed when
  \<open>quiet\<close> is false are not modelled. \<open>process_rows\<close> is the loop of lines 98-130 with
  the variables it updates: \<open>return_code\<close> and \<open>folder_list["file_contents"]\<close>.
\<close>

fun get_folder_list ::
  "('w, 'p, 'o) env \<Rightarrow> nat \<Rightarrow> 'w \<Rightarrow> string \<Rightarrow> bool \<Rightarrow>
     'w \<times> (py_error + bool \<times> folder_dict option)"
and process_rows ::
  "('w, 'p, 'o) env \<Rightarrow> nat \<Rightarrow> 'w \<Rightarrow> bool \<Rightarrow> (json \<times> json \<times> json) list \<Rightarrow>
     bool \<Rightarrow> string \<times> string \<Rightarrow> folder_dict option list \<Rightarrow>
     'w \<times> (py_error + bool \<times> folder_dict option)" where
  "get_folder_list E 0 w folder use_cookies = (w, Inl RecursionError)"
| "get_folder_list E (Suc depth) w folder use_cookies =
     (case client_get E w folder of
        (w1, Inl e) \<Rightarrow> (w1, Inl e)
      | (w1, Inr folder_page) \<Rightarrow>
          if status_code folder_page \<noteq> 200 then (w1, Inr (False, None))
          else
            (let w2 = (if \<not> use_cookies then cookies_clear E w1 else w1) in
             case parse_listing (loads E) folder_page folder of
               Inl e \<Rightarrow> (w2, Inl e)
             | Inr (name, fid, rows) \<Rightarrow>
                 process_rows E depth w2 use_cookies rows True (name, fid) []))"
| "process_rows E depth w use_cookies [] return_code hdr contents =
     (w, Inr (return_code,
              Some (FolderDict (JStr (fst hdr)) (JStr (snd hdr)) (JStr folder_type)
                      (Some contents))))"
| "process_rows E depth w use_cookies ((f_id, f_name, f_type) # rest) return_code hdr contents =
     (if f_type \<noteq> JStr folder_type then
        (let contents' = contents @ [Some (FolderDict f_name f_id f_type None)] in
         if \<not> return_code then (w, Inr (return_code, None))
         else process_rows E depth w use_cookies rest return_code hdr contents')
      else
        (case py_str_add folders_url f_id of
           Inl e \<Rightarrow> (w, Inl e)
         | Inr url \<Rightarrow>
             (case get_folder_list E depth w url use_cookies of
                (w', Inl e) \<Rightarrow> (w', Inl e)
              | (w', Inr (rc, folder_structure)) \<Rightarrow>
                  if \<not> rc then (w', Inr (rc, None))
                  else process_rows E depth w' use_cookies rest rc hdr
                         (contents @ [folder_structure]))))"

section \<open>\<open>get_directory_structure\<close> and \<open>download_folder\<close>\<close>

text \<open>\<open>previous_path / v\<close>: \<open>pathlib\<close> joins a path with a str only.\<close>

fun py_truediv :: "('w, 'p, 'o) env \<Rightarrow> 'p \<Rightarrow> json \<Rightarrow> py_error + 'p" where
  "py_truediv E p (JStr s) = Inr (path_join E p s)"
| "py_truediv E p v = Inl TypeError"

text \<open>
  The result is the list of pairs \<open>(file_id, file_path)\<close>; the \<open>None\<close> that marks a
  directory is \<open>JNull\<close>. \<open>directory_loop\<close> is the loop of lines 151-163 with the list
  it appends to. Iterating over a \<open>file_contents\<close> that is \<open>None\<close> and subscripting an
  element that is \<open>None\<close> raise \<open>TypeError\<close>.
\<close>

fun get_directory_structure ::
  "('w, 'p, 'o) env \<Rightarrow> folder_dict \<Rightarrow> 'p \<Rightarrow> py_error + (json \<times> 'p) list"
and directory_loop ::
  "('w, 'p, 'o) env \<Rightarrow> folder_dict option list \<Rightarrow> 'p \<Rightarrow> (json \<times> 'p) list \<Rightarrow>
     py_error + (json \<times> 'p) list" where
  "get_directory_structure E (FolderDict d_name d_id d_type d_contents) previous_path =
     (case d_contents of
        None \<Rightarrow> Inl TypeError
      | Some files \<Rightarrow> directory_loop E files previous_path [])"
| "directory_loop E [] previous_path directory_structure = Inr directory_structure"
| "directory_loop E (None # rest) previous_path directory_structure = Inl TypeError"
| "directory_loop E (Some file # rest) previous_path directory_structure =
     (if file_type file = JStr folder_type then
        (case py_truediv E previous_path (file_name file) of
           Inl e \<Rightarrow> Inl e
         | Inr file_path \<Rightarrow>
             (case get_directory_structure E file file_path of
                Inl e \<Rightarrow> Inl e
              | Inr sub \<Rightarrow>
                  directory_loop E rest previous_path
                    (directory_structure @ [(JNull, file_path)] @ sub)))
      else if file_contents file = None then
        (case py_truediv E previous_path (file_name file) of
           Inl e \<Rightarrow> Inl e
         | Inr file_path \<Rightarrow>
             directory_loop E rest previous_path
               (directory_structure @ [(file_id file, file_path)]))
      else directory_loop E rest previous_path directory_structure)"

text \<open>
  The loop of lines 227-244 with \<open>return_code\<close>: a pair whose id is \<open>None\<close> is a
  directory to create, any other one a file to download from \<open>files_url + file_id\<close>.
\<close>

fun download_loop ::
  "('w, 'p, 'o) env \<Rightarrow> 'o \<Rightarrow> bool \<Rightarrow> 'w \<Rightarrow> (json \<times> 'p) list \<Rightarrow> bool \<Rightarrow>
     'w \<times> (py_error + bool)" where
  "download_loop E opts use_cookies w [] return_code = (w, Inr return_code)"
| "download_loop E opts use_cookies w ((f_id, file_path) # rest) return_code =
     (if f_id = JNull then
        (case path_mkdir E w file_path of
           (w', Some e) \<Rightarrow> (w', Inl e)
         | (w', None) \<Rightarrow> download_loop E opts use_cookies w' rest return_code)
      else
        (case py_str_add files_url f_id of
           Inl e \<Rightarrow> (w, Inl e)
         | Inr url \<Rightarrow>
             (case download E w url file_path opts use_cookies of
                (w', Inl e) \<Rightarrow> (w', Inl e)
              | (w', Inr rc) \<Rightarrow>
                  if \<not> rc then (w', Inr rc)
                  else download_loop E opts use_cookies w' rest rc)))"

text \<open>
  Lines 203-247. The listing is always requested with \<open>use_cookies=False\<close>; subscripting
  a \<open>folder_list\<close> that is \<open>None\<close> would raise \<open>TypeError\<close>.
\<close>

definition download_folder ::
  "('w, 'p, 'o) env \<Rightarrow> nat \<Rightarrow> 'w \<Rightarrow> string \<Rightarrow> string option \<Rightarrow> 'o \<Rightarrow> bool \<Rightarrow>
     'w \<times> (py_error + bool)" where
  "download_folder E depth w folder output opts use_cookies =
     (case get_folder_list E depth w folder False of
        (w1, Inl e) \<Rightarrow> (w1, Inl e)
      | (w1, Inr (return_code, folder_list)) \<Rightarrow>
          if \<not> return_code then (w1, Inr return_code)
          else
            (let out = (case output of None \<Rightarrow> path_cwd E w1 | Some s \<Rightarrow> path_of E s) in
             case folder_list of
               None \<Rightarrow> (w1, Inl TypeError)
             | Some fl \<Rightarrow>
                 (case py_truediv E out (file_name fl) of
                    Inl e \<Rightarrow> (w1, Inl e)
                  | Inr root \<Rightarrow>
                      (case get_directory_structure E fl root of
                         Inl e \<Rightarrow> (w1, Inl e)
                       | Inr directory_structure \<Rightarrow>
                           download_loop E opts use_cookies w1 directory_structure
                             return_code))))"

section \<open>Observing the calls to the collaborators\<close>

text \<open>
  To state which calls a run makes, and in which order, the collaborators of any
  environment are wrapped so that each call is also appended to a log kept beside the
  world: a request with its status code (or the exception), a clearing of the cookies,
  a \<open>mkdir\<close> and a \<open>download\<close> with their arguments and results. The wrapped
  collaborators return what the original ones return.
\<close>

datatype 'p event =
    EvGet string "py_error + int"
  | EvClear
  | EvMkdir 'p "py_error option"
  | EvDownload string 'p bool "py_error + bool"

definition logged :: "('w, 'p, 'o) env \<Rightarrow> ('w \<times> 'p event list, 'p, 'o) env" where
  "logged E =
     \<lparr> client_get = (\<lambda>wl url.
         case client_get E (fst wl) url of
           (w', r) \<Rightarrow> ((w', snd wl @ [EvGet url (map_sum id status_code r)]), r)),
       cookies_clear = (\<lambda>wl. (cookies_clear E (fst wl), snd wl @ [EvClear])),
       loads = loads E,
       path_cwd = (\<lambda>wl. path_cwd E (fst wl)),
       path_of = path_of E,
       path_join = path_join E,
       path_mkdir = (\<lambda>wl p.
         case path_mkdir E (fst wl) p of
           (w', r) \<Rightarrow> ((w', snd wl @ [EvMkdir p r]), r)),
       download = (\<lambda>wl url p opts use_cookies.
         case download E (fst wl) url p opts use_cookies of
           (w', r) \<Rightarrow> ((w', snd wl @ [EvDownload url p use_cookies r]), r)) \<rparr>"

text \<open>A request that was answered with a status code other than 200.\<close>

fun failed_get :: "'p event \<Rightarrow> bool" where
  "failed_get (EvGet url (Inr s)) = (s \<noteq> 200)"
| "failed_get e = False"

text \<open>The events of the listing phase, as opposed to those of the download phase.\<close>

fun listing_event :: "'p event \<Rightarrow> bool" where
  "listing_event (EvGet url r) = True"
| "listing_event EvClear = True"
| "listing_event e = False"

text \<open>
  The pair of the directory structure that a \<open>mkdir\<close> or \<open>download\<close> call carries out:
  \<open>(None, path)\<close> for a directory, \<open>(file_id, path)\<close> for the download of
  \<open>files_url + file_id\<close>.
\<close>

fun event_action :: "'p event \<Rightarrow> (json \<times> 'p) option" where
  "event_action (EvMkdir p r) = Some (JNull, p)"
| "event_action (EvDownload url p c r) = Some (JStr (drop (length files_url) url), p)"
| "event_action e = None"

text \<open>The \<open>use_cookies\<close> that a download event was called with.\<close>

fun download_cookies :: "'p event \<Rightarrow> bool option" where
  "download_cookies (EvDownload url p c r) = Some c"
| "download_cookies e = None"

section \<open>The invariant of the folder structure\<close>

text \<open>
  A dictionary whose type is the folder type has a list as contents, each element of
  which is a dictionary with the same property; any other dictionary has
  \<open>file_contents = None\<close>.
\<close>

fun kinds_ok :: "folder_dict \<Rightarrow> bool"
and all_kinds_ok :: "folder_dict option list \<Rightarrow> bool" where
  "kinds_ok (FolderDict n i t c) =
     (if t = JStr folder_type then (case c of None \<Rightarrow> False | Some cs \<Rightarrow> all_kinds_ok cs)
      else c = None)"
| "all_kinds_ok [] = True"
| "all_kinds_ok (None # cs) = False"
| "all_kinds_ok (Some d # cs) = (kinds_ok d \<and> all_kinds_ok cs)"

section \<open>A file system for \<open>mkdir\<close>\<close>

text \<open>
  \<open>Path.mkdir\<close> is library code. To say what creating a directory twice does, a file
  system of directories and regular files, all of which the process may read and
  write, is modelled as the table of its entries: each is a path (the list of its
  components below the root) with its kind; the root is a directory.
\<close>

datatype kind = Dir | File

type_synonym path = "string list"
type_synonym fs = "(path \<times> kind) list"

definition fs_lookup :: "fs \<Rightarrow> path \<Rightarrow> kind option" where
  "fs_lookup f p = (if p = [] then Some Dir else map_of f p)"


text \<open>
  The paths handed to the system are the parts of a \<open>pathlib\<close> path, from which
  \<open>pathlib\<close> has removed the empty components and the dots, but not \<open>..\<close>: the
  system resolves it while it walks the path, as the parent of the directory reached
  so far (the root is its own parent). \<open>walk\<close> follows the components from the
  directory \<open>cur\<close>; each of them has to lead to a directory: the errors are \<open>ENOENT\<close>
  and \<open>ENOTDIR\<close>.
\<close>

definition step :: "path \<Rightarrow> string \<Rightarrow> path" where
  "step cur c = (if c = ''..'' then butlast cur else cur @ [c])"

fun walk :: "fs \<Rightarrow> path \<Rightarrow> path \<Rightarrow> py_error + path" where
  "walk f cur [] = Inr cur"
| "walk f cur (c # cs) =
     (case fs_lookup f (step cur c) of
        None \<Rightarrow> Inl FileNotFoundError
      | Some File \<Rightarrow> Inl NotADirectoryError
      | Some Dir \<Rightarrow> walk f (step cur c) cs)"

text \<open>
  \<open>os.mkdir\<close>, the system call: the path up to its last component is walked; the call
  fails with \<open>EEXIST\<close> where the last component is \<open>..\<close> or names an entry of the
  directory reached, and for the root; otherwise the directory is created there.
\<close>

definition os_mkdir :: "fs \<Rightarrow> path \<Rightarrow> py_error + fs" where
  "os_mkdir f p =
     (if p = [] then Inl FileExistsError
      else
        (case walk f [] (butlast p) of
           Inl e \<Rightarrow> Inl e
         | Inr d \<Rightarrow>
             if last p = ''..'' then Inl FileExistsError
             else
               (case fs_lookup f (d @ [last p]) of
                  Some k \<Rightarrow> Inl FileExistsError
                | None \<Rightarrow> Inr (f @ [(d @ [last p], Dir)]))))"

text \<open>\<open>Path.is_dir\<close>: \<open>stat\<close> finds a directory; where \<open>stat\<close> fails the answer is \<open>False\<close>.\<close>

definition is_dir :: "fs \<Rightarrow> path \<Rightarrow> bool" where
  "is_dir f p = (case walk f [] p of Inl e \<Rightarrow> False | Inr d \<Rightarrow> True)"

text \<open>
  \<open>Path.mkdir(parents=False, exist_ok=True)\<close>, with the file system it leaves and the
  exception it raises, if any: \<open>FileNotFoundError\<close> is raised again since \<open>parents\<close> is
  false; any other \<open>OSError\<close> is swallowed when the path is a directory.
\<close>

definition mkdir_exist_ok :: "fs \<Rightarrow> path \<Rightarrow> fs \<times> py_error option" where
  "mkdir_exist_ok f p =
     (case os_mkdir f p of
        Inr f' \<Rightarrow> (f', None)
      | Inl e \<Rightarrow>
          if e = FileNotFoundError then (f, Some e)
          else if is_dir f p then (f, None)
          else (f, Some e))"

text \<open>
  \<open>Path.mkdir(parents=True, exist_ok=True)\<close>: on \<open>FileNotFoundError\<close> the parent (the
  path without its last component; the root is its own parent) is created in the same
  way, and the directory is then created without \<open>parents\<close>. What an attempt that
  fails has created stays.
\<close>

function mkdir_parents :: "fs \<Rightarrow> path \<Rightarrow> fs \<times> py_error option" where
  "mkdir_parents f p =
     (case os_mkdir f p of
        Inr f' \<Rightarrow> (f', None)
      | Inl e \<Rightarrow>
          if e = FileNotFoundError then
            (if p = [] then (f, Some e)
             else
               (case mkdir_parents f (butlast p) of
                  (f1, Some e') \<Rightarrow> (f1, Some e')
                | (f1, None) \<Rightarrow> mkdir_exist_ok f1 p))
          else if is_dir f p then (f, None)
          else (f, Some e))"
  by pat_completeness auto
termination
  by (relation "measure (\<lambda>(f, p). length p)") auto

text \<open>
  A regular file is met on the way: a component of the path, followed from the root
  as \<open>walk\<close> does, leads to a regular file.
\<close>

fun file_on_path :: "fs \<Rightarrow> path \<Rightarrow> path \<Rightarrow> bool" where
  "file_on_path f cur [] = False"
| "file_on_path f cur (c # cs) =
     (fs_lookup f (step cur c) = Some File \<or> file_on_path f (step cur c) cs)"

section \<open>A synthetic remote side\<close>

text \<open>
  Paths as \<open>pathlib\<close> joins them on a POSIX system, for a process whose working
  directory is the root: the components of a str are what stands between its
  slashes, without the empty ones and the dots; joining with a str that starts with a
  slash starts again from the root.
\<close>

fun path_parts :: "string \<Rightarrow> string \<Rightarrow> path" where
  "path_parts cur [] = (if cur = [] \<or> cur = ''.'' then [] else [cur])"
| "path_parts cur (c # cs) =
     (if c = CHR ''/'' then
        (if cur = [] \<or> cur = ''.'' then path_parts [] cs else cur # path_parts [] cs)
      else path_parts (cur @ [c]) cs)"

definition posix_join :: "path \<Rightarrow> string \<Rightarrow> path" where
  "posix_join p s = (if take 1 s = ''/'' then path_parts [] s else p @ path_parts [] s)"

text \<open>
  The remote side is a table of pages by url and a table of decoded values by encoded
  string; a url that is not in the table is answered with status 404. The world is the
  local file system; \<open>download\<close> fails for the urls in \<open>bad\<close> and writes a file at the
  path for every other one.
\<close>

definition not_found :: page where
  "not_found = \<lparr> status_code = 404, scripts = [], title = None \<rparr>"

definition table_download ::
  "string list \<Rightarrow> fs \<Rightarrow> string \<Rightarrow> path \<Rightarrow> unit \<Rightarrow> bool \<Rightarrow> fs \<times> (py_error + bool)" where
  "table_download bad f url p opts use_cookies =
     (if url \<in> set bad then (f, Inr False) else (f @ [(p, File)], Inr True))"

definition table_env ::
  "(string \<times> page) list \<Rightarrow> (string \<times> json) list \<Rightarrow> string list \<Rightarrow> (fs, path, unit) env" where
  "table_env pages decoded bad =
     \<lparr> client_get = (\<lambda>f url.
         (f, Inr (case map_of pages url of None \<Rightarrow> not_found | Some pg \<Rightarrow> pg))),
       cookies_clear = (\<lambda>f. f),
       loads = (\<lambda>s. case map_of decoded s of
                       None \<Rightarrow> Inl (LibraryError ''JSONDecodeError'')
                     | Some v \<Rightarrow> Inr v),
       path_cwd = (\<lambda>f. []),
       path_of = posix_join [],
       path_join = posix_join,
       path_mkdir = mkdir_parents,
       download = table_download bad \<rparr>"

text \<open>A listing page as the remote side serves it: some script, then the script with the marker.\<close>

definition listing_page :: "string \<Rightarrow> string \<Rightarrow> page" where
  "listing_page name payload =
     \<lparr> status_code = 200,
       scripts = [''var a = 'x';'',
                  ''window['_DRIVE_ivd'] = '' @ [CHR 0x27] @ payload @ [CHR 0x27] @ '';''],
       title = Some [name @ '' - Google Drive''] \<rparr>"

definition row :: "string \<Rightarrow> string \<Rightarrow> string \<Rightarrow> json" where
  "row f_id f_name f_type = JArr [JStr f_id, JArr [], JStr f_name, JStr f_type]"

text \<open>
  The folders of the synthetic remote side: \<open>ROOT\<close> holds the folder \<open>SUB\<close> and the file
  \<open>C\<close>, \<open>SUB\<close> holds the files \<open>A\<close> and \<open>B\<close>, \<open>EMPTY\<close> holds nothing (the first element of
  its array is null), \<open>TOP\<close> holds a file and the folder \<open>GONE\<close>, which has no page,
  and the listings of \<open>SHORT0\<close> and \<open>SHORT1\<close> have a row of one element, the first one
  as row 0, the second one as row 1.
\<close>

definition remote_pages :: "(string \<times> page) list" where
  "remote_pages =
     [(folders_url @ ''ROOT'', listing_page ''root'' ''P-ROOT''),
      (folders_url @ ''SUB'', listing_page ''sub'' ''P-SUB''),
      (folders_url @ ''EMPTY'', listing_page ''empty'' ''P-EMPTY''),
      (folders_url @ ''TOP'', listing_page ''top'' ''P-TOP''),
      (folders_url @ ''SHORT0'', listing_page ''short0'' ''P-SHORT0''),
      (folders_url @ ''SHORT1'', listing_page ''short1'' ''P-SHORT1'')]"

definition remote_decoded :: "(string \<times> json) list" where
  "remote_decoded =
     [(''P-ROOT'', JArr [JArr [row ''SUB'' ''sub'' folder_type, row ''C'' ''fileC'' ''text/plain'']]),
      (''P-SUB'', JArr [JArr [row ''A'' ''fileA'' ''text/plain'', row ''B'' ''fileB'' ''image/png'']]),
      (''P-EMPTY'', JArr [JNull, JInt 1]),
      (''P-TOP'', JArr [JArr [row ''T'' ''fileT'' ''text/plain'', row ''GONE'' ''gone'' folder_type]]),
      (''P-SHORT0'', JArr [JArr [JArr [JStr ''X''], row ''Y'' ''fileY'' ''text/plain'']]),
      (''P-SHORT1'', JArr [JArr [row ''Y'' ''fileY'' ''text/plain'', JArr [JStr ''X'']]])]"

definition remote :: "string list \<Rightarrow> (fs, path, unit) env" where
  "remote bad = table_env remote_pages remote_decoded bad"

text \<open>All the dictionaries of a folder structure: the root and its descendants.\<close>

fun nodes :: "folder_dict \<Rightarrow> folder_dict list"
and nodes_of :: "folder_dict option list \<Rightarrow> folder_dict list" where
  "nodes (FolderDict n i t c) =
     FolderDict n i t c # (case c of None \<Rightarrow> [] | Some cs \<Rightarrow> nodes_of cs)"
| "nodes_of [] = []"
| "nodes_of (None # cs) = nodes_of cs"
| "nodes_of (Some d # cs) = nodes d @ nodes_of cs"

text \<open>The folder structure that \<open>get_folder_list\<close> builds for the folder \<open>ROOT\<close>.\<close>

definition root_tree :: folder_dict where
  "root_tree =
     FolderDict (JStr ''root'') (JStr ''ROOT'') (JStr folder_type)
       (Some [Some (FolderDict (JStr ''sub'') (JStr ''SUB'') (JStr folder_type)
                (Some [Some (FolderDict (JStr ''fileA'') (JStr ''A'') (JStr ''text/plain'') None),
                       Some (FolderDict (JStr ''fileB'') (JStr ''B'') (JStr ''image/png'') None)])),
              Some (FolderDict (JStr ''fileC'') (JStr ''C'') (JStr ''text/plain'') None)])"

text \<open>A result of a run on the wrapped collaborators, without its log.\<close>

definition unlogged :: "('w \<times> 'l) \<times> 'r \<Rightarrow> 'w \<times> 'r" where
  "unlogged x = (fst (fst x), snd x)"

text \<open>
  What the events that one call of \<open>get_folder_list\<close> adds to the log look like, given
  the result \<open>r\<close> of the call: they are events of the listing phase, no request but
  the last one was answered with a status other than 200, and if one was, the result
  is \<open>(False, None)\<close>.
\<close>

definition listing_log_ok ::
  "'p event list \<Rightarrow> py_error + bool \<times> folder_dict option \<Rightarrow> bool" where
  "listing_log_ok l r =
     (list_all listing_event l \<and> \<not> list_ex failed_get (butlast l) \<and>
      (if list_ex failed_get l then r = Inr (False, None) else True))"

text \<open>An event of the download phase that shows, if it is a download, the given \<open>use_cookies\<close>.\<close>

definition download_event :: "bool \<Rightarrow> 'p event \<Rightarrow> bool" where
  "download_event use_cookies e =
     (\<not> listing_event e \<and>
      (download_cookies e = None \<or> download_cookies e = Some use_cookies))"

text \<open>
  The folder list and the directory structure with which the loop of \<open>download_folder\<close>
  starts: lines 203-225 as a function of their own, \<open>None\<close> where \<open>get_folder_list\<close>
  returned a return code that is false. \<open>use_cookies\<close> is not among its arguments.
\<close>

definition retrieval_phase ::
  "('w, 'p, 'o) env \<Rightarrow> nat \<Rightarrow> 'w \<Rightarrow> string \<Rightarrow> string option \<Rightarrow>
     'w \<times> (py_error + (folder_dict \<times> (json \<times> 'p) list) option)" where
  "retrieval_phase E depth w folder output =
     (case get_folder_list E depth w folder False of
        (w1, Inl e) \<Rightarrow> (w1, Inl e)
      | (w1, Inr (return_code, folder_list)) \<Rightarrow>
          if \<not> return_code then (w1, Inr None)
          else
            (let out = (case output of None \<Rightarrow> path_cwd E w1 | Some s \<Rightarrow> path_of E s) in
             case folder_list of
               None \<Rightarrow> (w1, Inl TypeError)
             | Some fl \<Rightarrow>
                 (case py_truediv E out (file_name fl) of
                    Inl e \<Rightarrow> (w1, Inl e)
                  | Inr root \<Rightarrow>
                      (case get_directory_structure E fl root of
                         Inl e \<Rightarrow> (w1, Inl e)
                       | Inr directory_structure \<Rightarrow>
                           (w1, Inr (Some (fl, directory_structure)))))))"

text \<open>The directory structure of the retrieval phase; empty where there is none.\<close>

definition planned ::
  "('w, 'p, 'o) env \<Rightarrow> nat \<Rightarrow> 'w \<Rightarrow> string \<Rightarrow> string option \<Rightarrow> (json \<times> 'p) list" where
  "planned E depth w folder output =
     (case snd (retrieval_phase E depth w folder output) of
        Inl e \<Rightarrow> []
      | Inr None \<Rightarrow> []
      | Inr (Some (folder_list, directory_structure)) \<Rightarrow> directory_structure)"

section \<open>Extraction of the encoded array\<close>

lemma find_SomeD: "find P xs = Some x \<Longrightarrow> x \<in> set xs \<and> P x"
  by (induction xs) (auto split: if_splits)

text \<open>\<open>str_in\<close> is the substring test.\<close>

lemma str_in_iff: "str_in m s \<longleftrightarrow> (\<exists>a b. s = a @ m @ b)"
proof (induction s)
  case Nil
  then show ?case by auto
next
  case (Cons c cs)
  have "take (length m) (c # cs) = m \<longleftrightarrow> (\<exists>b. c # cs = m @ b)"
    by (metis append_eq_conv_conj append_take_drop_id)
  moreover have "(\<exists>a b. c # cs = a @ m @ b) \<longleftrightarrow> (\<exists>b. c # cs = m @ b) \<or> (\<exists>a b. cs = a @ m @ b)"
  proof
    assume "\<exists>a b. c # cs = a @ m @ b"
    then obtain a b where ab: "c # cs = a @ m @ b" by blast
    show "(\<exists>b. c # cs = m @ b) \<or> (\<exists>a b. cs = a @ m @ b)"
    proof (cases a)
      case Nil
      with ab show ?thesis by auto
    next
      case (Cons x a')
      with ab have "cs = a' @ m @ b" by simp
      then show ?thesis by blast
    qed
  next
    assume "(\<exists>b. c # cs = m @ b) \<or> (\<exists>a b. cs = a @ m @ b)"
    then show "\<exists>a b. c # cs = a @ m @ b"
    proof
      assume "\<exists>b. c # cs = m @ b"
      then obtain b where "c # cs = [] @ m @ b" by auto
      then show ?thesis by blast
    next
      assume "\<exists>a b. cs = a @ m @ b"
      then obtain a b where "c # cs = (c # a) @ m @ b" by auto
      then show ?thesis by blast
    qed
  qed
  ultimately show ?case using Cons.IH by simp
qed

text \<open>The scan over the scripts stops at the first one that contains the marker.\<close>

lemma find_encoded_data_find:
  "find_encoded_data ss =
     (case find (str_in ''_DRIVE_ivd'') ss of
        None \<Rightarrow> Inl (RuntimeError ''Didn't found _DRIVE_ivd script tag'')
      | Some s \<Rightarrow>
          (case drop 1 (string_literals s) of
             [] \<Rightarrow> Inl (RuntimeError ''Couldn't find the folder encoded JS string'')
           | encoded_data # _ \<Rightarrow> Inr encoded_data))"
  by (induction ss) simp_all

text \<open>
  C6. The extraction (lines 59-76) raises \<open>RuntimeError("Didn't found _DRIVE_ivd script
  tag")\<close>, the spec's StructureNotFound, exactly when no script contains the marker, and
  \<open>RuntimeError("Couldn't find the folder encoded JS string")\<close>, the spec's
  PayloadNotFound, exactly when a script with the marker is found (the first one in
  document order is the one the scan stops at) and the regular expression finds fewer
  than two string literals in it.
\<close>

theorem extraction_failures:
  "(find_encoded_data ss = Inl (RuntimeError ''Didn't found _DRIVE_ivd script tag'')
      \<longleftrightarrow> (\<forall>s \<in> set ss. \<not> str_in ''_DRIVE_ivd'' s)) \<and>
   (find_encoded_data ss = Inl (RuntimeError ''Couldn't find the folder encoded JS string'')
      \<longleftrightarrow> (\<exists>s. find (str_in ''_DRIVE_ivd'') ss = Some s \<and> length (string_literals s) < 2))"
proof -
  have short: "drop 1 xs = [] \<longleftrightarrow> length xs < 2" for xs :: "string list"
    by (cases xs) auto
  show ?thesis
    unfolding find_encoded_data_find
    by (auto simp: find_None_iff short split: option.splits list.splits dest: find_SomeD)
qed

theorem extraction_failures_witness:
  "find_encoded_data [''var a = 'x' + 'y';''] =
     Inl (RuntimeError ''Didn't found _DRIVE_ivd script tag'') \<and>
   find_encoded_data
     [''var a = 'x' + 'y';'', ''window['_DRIVE_ivd'] = 1;'', ''_DRIVE_ivd 'p' 'q' ''] =
     Inl (RuntimeError ''Couldn't find the folder encoded JS string'')"
proof -
  have a: "\<forall>s \<in> set [''var a = 'x' + 'y';'']. \<not> str_in ''_DRIVE_ivd'' s"
    by simp
  have b: "find (str_in ''_DRIVE_ivd'')
             [''var a = 'x' + 'y';'', ''window['_DRIVE_ivd'] = 1;'', ''_DRIVE_ivd 'p' 'q' '']
           = Some ''window['_DRIVE_ivd'] = 1;'' \<and>
           length (string_literals ''window['_DRIVE_ivd'] = 1;'') < 2"
    by simp
  from a b show ?thesis
    using extraction_failures [of "[''var a = 'x' + 'y';'']"]
      extraction_failures
        [of "[''var a = 'x' + 'y';'', ''window['_DRIVE_ivd'] = 1;'', ''_DRIVE_ivd 'p' 'q' '']"]
    by blast
qed

section \<open>The steps of \<open>get_folder_list\<close>\<close>

text \<open>
  The ways a call of \<open>get_folder_list\<close> and one round of its loop can go, as case rules:
  every proof below about a whole run follows them.
\<close>

lemma get_folder_list_cases [consumes 1, case_names raised status parse_error rows]:
  assumes "get_folder_list E (Suc depth) w folder use_cookies = (w', r)"
  obtains
    e where "client_get E w folder = (w', Inl e)" "r = Inl e"
  | pg where "client_get E w folder = (w', Inr pg)" "status_code pg \<noteq> 200"
      "r = Inr (False, None)"
  | w1 pg e where "client_get E w folder = (w1, Inr pg)" "status_code pg = 200"
      "w' = (if \<not> use_cookies then cookies_clear E w1 else w1)"
      "parse_listing (loads E) pg folder = Inl e" "r = Inl e"
  | w1 pg name fid rows where "client_get E w folder = (w1, Inr pg)" "status_code pg = 200"
      "parse_listing (loads E) pg folder = Inr (name, fid, rows)"
      "process_rows E depth (if \<not> use_cookies then cookies_clear E w1 else w1) use_cookies
         rows True (name, fid) [] = (w', r)"
proof -
  obtain w1 g where g: "client_get E w folder = (w1, g)"
    by (cases "client_get E w folder")
  show thesis
  proof (cases g)
    case (Inl e)
    with assms g that(1) show thesis by simp
  next
    case (Inr pg)
    show thesis
    proof (cases "status_code pg \<noteq> 200")
      case True
      with assms g Inr that(2) show thesis by simp
    next
      case False
      show thesis
      proof (cases "parse_listing (loads E) pg folder")
        case (Inl e)
        with assms g \<open>g = Inr pg\<close> False that(3) [of w1 pg e] show thesis
          by (simp add: Let_def)
      next
        case (Inr res)
        obtain name fid rows where "res = (name, fid, rows)" by (cases res)
        with assms g \<open>g = Inr pg\<close> False Inr that(4) [of w1 pg name fid rows] show thesis
          by (simp add: Let_def)
      qed
    qed
  qed
qed

lemma process_rows_cases
  [consumes 1, case_names plain plain_stop bad_id raised failed folder]:
  assumes "process_rows E depth w use_cookies ((f_id, f_name, f_type) # rest) rc0 hdr contents
             = (w', r)"
  obtains
    "f_type \<noteq> JStr folder_type" "rc0"
      "process_rows E depth w use_cookies rest rc0 hdr
         (contents @ [Some (FolderDict f_name f_id f_type None)]) = (w', r)"
  | "f_type \<noteq> JStr folder_type" "\<not> rc0" "w' = w" "r = Inr (False, None)"
  | e where "f_type = JStr folder_type" "py_str_add folders_url f_id = Inl e" "w' = w"
      "r = Inl e"
  | url e where "f_type = JStr folder_type" "py_str_add folders_url f_id = Inr url"
      "get_folder_list E depth w url use_cookies = (w', Inl e)" "r = Inl e"
  | url fs where "f_type = JStr folder_type" "py_str_add folders_url f_id = Inr url"
      "get_folder_list E depth w url use_cookies = (w', Inr (False, fs))"
      "r = Inr (False, None)"
  | url w1 fs where "f_type = JStr folder_type" "py_str_add folders_url f_id = Inr url"
      "get_folder_list E depth w url use_cookies = (w1, Inr (True, fs))"
      "process_rows E depth w1 use_cookies rest True hdr (contents @ [fs]) = (w', r)"
proof (cases "f_type \<noteq> JStr folder_type")
  case True
  with assms that(1,2) show thesis
    by (cases rc0) (simp_all add: Let_def)
next
  case False
  show thesis
  proof (cases "py_str_add folders_url f_id")
    case (Inl e)
    with assms False that(3) show thesis by auto
  next
    case (Inr url)
    obtain w1 g where g: "get_folder_list E depth w url use_cookies = (w1, g)"
      by (cases "get_folder_list E depth w url use_cookies")
    show thesis
    proof (cases g)
      case (Inl e)
      with assms False \<open>py_str_add folders_url f_id = Inr url\<close> g that(4) show thesis
        by auto
    next
      case (Inr res)
      obtain rc fs where res: "res = (rc, fs)" by (cases res)
      show thesis
      proof (cases rc)
        case True
        with assms False \<open>py_str_add folders_url f_id = Inr url\<close> g Inr res
          that(6) [of url w1 fs]
        show thesis by auto
      next
        case rc: False
        with assms False \<open>py_str_add folders_url f_id = Inr url\<close> g Inr res
          that(5) [of url fs]
        show thesis by auto
      qed
    qed
  qed
qed

lemma parse_listing_id:
  "parse_listing ld pg folder = Inr (name, fid, rows) \<Longrightarrow> fid = drop 39 folder"
  by (auto simp: parse_listing_def Let_def split: sum.splits)

section \<open>What \<open>get_folder_list\<close> returns\<close>

lemma process_rows_shape:
  assumes "process_rows E depth w uc rows rc0 hdr contents = (w', Inr (rc, fl))" and "rc0"
  shows "(rc \<and> (\<exists>cs. fl = Some (FolderDict (JStr (fst hdr)) (JStr (snd hdr))
                                 (JStr folder_type) (Some cs)))) \<or>
         (\<not> rc \<and> fl = None)"
  using assms
proof (induction rows arbitrary: w rc0 contents)
  case Nil
  then show ?case by auto
next
  case (Cons x rows)
  obtain f_id f_name f_type where x: "x = (f_id, f_name, f_type)" by (cases x)
  from Cons.prems(1) [unfolded x] show ?case
  proof (cases rule: process_rows_cases)
    case plain
    then show ?thesis using Cons.IH by blast
  next
    case plain_stop
    then show ?thesis using Cons.prems(2) by simp
  next
    case (bad_id e)
    then show ?thesis by simp
  next
    case (raised url e)
    then show ?thesis by simp
  next
    case (failed url fs)
    then show ?thesis by simp
  next
    case (folder url w1 fs)
    then show ?thesis using Cons.IH by blast
  qed
qed

text \<open>
  C9. Whenever \<open>get_folder_list\<close> returns (rather than raises), it returns either
  \<open>True\<close> with a dictionary that has the parsed name, the id \<open>folder[39:]\<close>, the folder
  type and a list as \<open>file_contents\<close>, or \<open>False\<close> with \<open>None\<close>; never \<open>True\<close> with
  \<open>None\<close> and never \<open>False\<close> with a dictionary.
\<close>

theorem get_folder_list_shape:
  assumes "get_folder_list E depth w folder use_cookies = (w', Inr (rc, fl))"
  shows "(rc \<and> (\<exists>name cs. fl = Some (FolderDict (JStr name) (JStr (drop 39 folder))
                                      (JStr folder_type) (Some cs)))) \<or>
         (\<not> rc \<and> fl = None)"
proof (cases depth)
  case 0
  with assms show ?thesis by simp
next
  case (Suc d)
  from assms [unfolded Suc] show ?thesis
  proof (cases rule: get_folder_list_cases)
    case (raised e)
    then show ?thesis by simp
  next
    case (status pg)
    then show ?thesis by simp
  next
    case (parse_error w1 pg e)
    then show ?thesis by simp
  next
    case (rows w1 pg name fid rows)
    from process_rows_shape [OF rows(4)] parse_listing_id [OF rows(3)]
    show ?thesis by auto
  qed
qed

lemma remote_root:
  "get_folder_list (remote []) 3 [] (folders_url @ ''ROOT'') False
     = ([], Inr (True, Some root_tree))"
  by code_simp

lemma remote_top:
  "get_folder_list (remote []) 3 [] (folders_url @ ''TOP'') False = ([], Inr (False, None))"
  by code_simp

theorem get_folder_list_shape_witness:
  "get_folder_list (remote []) 3 [] (folders_url @ ''ROOT'') False
     = ([], Inr (True, Some root_tree)) \<and>
   (\<exists>name cs. root_tree = FolderDict (JStr name) (JStr ''ROOT'') (JStr folder_type) (Some cs)) \<and>
   get_folder_list (remote []) 3 [] (folders_url @ ''TOP'') False = ([], Inr (False, None))"
proof -
  have "drop 39 (folders_url @ ''ROOT'') = ''ROOT''"
    by (simp add: folders_url_def)
  with get_folder_list_shape [OF remote_root] remote_root remote_top
  show ?thesis by simp
qed

section \<open>The kinds of the nodes\<close>

lemma all_kinds_ok_append:
  "all_kinds_ok (xs @ ys) \<longleftrightarrow> all_kinds_ok xs \<and> all_kinds_ok ys"
proof (induction xs)
  case Nil
  then show ?case by simp
next
  case (Cons a xs)
  then show ?case by (cases a) simp_all
qed

lemma process_rows_kinds:
  assumes sub: "\<And>w url w1 fs. get_folder_list E depth w url uc = (w1, Inr (True, fs)) \<Longrightarrow>
                  \<exists>d. fs = Some d \<and> kinds_ok d"
    and "process_rows E depth w uc rows rc0 hdr contents = (w', Inr (True, Some t))"
    and "all_kinds_ok contents"
  shows "kinds_ok t"
  using assms(2,3)
proof (induction rows arbitrary: w rc0 contents)
  case Nil
  then show ?case by auto
next
  case (Cons x rows)
  obtain f_id f_name f_type where x: "x = (f_id, f_name, f_type)" by (cases x)
  from Cons.prems(1) [unfolded x] show ?case
  proof (cases rule: process_rows_cases)
    case plain
    have "all_kinds_ok (contents @ [Some (FolderDict f_name f_id f_type None)])"
      using plain(1) Cons.prems(2) by (simp add: all_kinds_ok_append)
    with plain(3) show ?thesis by (rule Cons.IH)
  next
    case plain_stop
    then show ?thesis by simp
  next
    case (bad_id e)
    then show ?thesis by simp
  next
    case (raised url e)
    then show ?thesis by simp
  next
    case (failed url fs)
    then show ?thesis by simp
  next
    case (folder url w1 fs)
    from sub [OF folder(3)] obtain d where "fs = Some d" "kinds_ok d" by blast
    then have "all_kinds_ok (contents @ [fs])"
      using Cons.prems(2) by (simp add: all_kinds_ok_append)
    with folder(4) show ?thesis by (rule Cons.IH)
  qed
qed

lemma get_folder_list_kinds:
  "get_folder_list E depth w folder uc = (w', Inr (True, fl)) \<Longrightarrow>
     \<exists>d. fl = Some d \<and> kinds_ok d"
proof (induction depth arbitrary: w folder w' fl)
  case 0
  then show ?case by simp
next
  case (Suc depth)
  from Suc.prems show ?case
  proof (cases rule: get_folder_list_cases)
    case (raised e)
    then show ?thesis by simp
  next
    case (status pg)
    then show ?thesis by simp
  next
    case (parse_error w1 pg e)
    then show ?thesis by simp
  next
    case (rows w1 pg name fid rows)
    from process_rows_shape [OF rows(4)] obtain t where t: "fl = Some t" by auto
    from rows(4) [unfolded t] have "kinds_ok t"
      by (rule process_rows_kinds [rotated]) (simp_all add: Suc.IH)
    with t show ?thesis by simp
  qed
qed

lemma kinds_ok_nodes:
  "kinds_ok t \<Longrightarrow> n \<in> set (nodes t) \<Longrightarrow>
     (file_type n = JStr folder_type) = (file_contents n \<noteq> None)"
  "all_kinds_ok cs \<Longrightarrow> n \<in> set (nodes_of cs) \<Longrightarrow>
     (file_type n = JStr folder_type) = (file_contents n \<noteq> None)"
  by (induction t and cs rule: nodes_nodes_of.induct) (auto split: if_splits option.splits)

text \<open>
  C7. In the folder structure that a successful \<open>get_folder_list\<close> returns, every
  dictionary, the root and all its descendants, has a list (possibly empty) as
  \<open>file_contents\<close> when its type is the folder type, and \<open>None\<close> otherwise.
\<close>

theorem tree_kinds:
  assumes "get_folder_list E depth w folder use_cookies = (w', Inr (True, Some t))"
  shows "\<forall>n \<in> set (nodes t).
           (file_type n = JStr folder_type \<longrightarrow> file_contents n \<noteq> None) \<and>
           (file_type n \<noteq> JStr folder_type \<longrightarrow> file_contents n = None)"
proof -
  from get_folder_list_kinds [OF assms] have "kinds_ok t" by simp
  then show ?thesis using kinds_ok_nodes(1) by blast
qed

theorem tree_kinds_witness:
  "length (nodes root_tree) = 5 \<and>
   list_all (\<lambda>n. (file_type n = JStr folder_type \<and> file_contents n \<noteq> None) \<or>
                 (file_type n \<noteq> JStr folder_type \<and> file_contents n = None))
     (nodes root_tree)"
proof -
  have "length (nodes root_tree) = 5" by code_simp
  moreover from tree_kinds [OF remote_root]
  have "list_all (\<lambda>n. (file_type n = JStr folder_type \<and> file_contents n \<noteq> None) \<or>
                       (file_type n \<noteq> JStr folder_type \<and> file_contents n = None))
          (nodes root_tree)"
    unfolding list_all_iff by blast
  ultimately show ?thesis by simp
qed

section \<open>The directory structure of small folders\<close>

lemma get_folder_list_rows:
  assumes "client_get E w folder = (w1, Inr pg)" and "status_code pg = 200"
    and "parse_listing (loads E) pg folder = Inr (name, fid, rows)"
  shows "get_folder_list E (Suc depth) w folder use_cookies =
           process_rows E depth (if \<not> use_cookies then cookies_clear E w1 else w1) use_cookies
             rows True (name, fid) []"
  using assms by (simp add: Let_def)

lemma get_folder_list_parse_error:
  assumes "client_get E w folder = (w1, Inr pg)" and "status_code pg = 200"
    and "parse_listing (loads E) pg folder = Inl e"
  shows "get_folder_list E (Suc depth) w folder use_cookies =
           (if \<not> use_cookies then cookies_clear E w1 else w1, Inl e)"
  using assms by (simp add: Let_def)

text \<open>
  C1, as the code has it. A root folder whose listing has a subfolder with two files
  and then a file: \<open>get_folder_list\<close> (called as \<open>download_folder\<close> calls it) returns a
  structure whose directory structure under \<open>out / root\<close> is, in this order, the
  directory \<open>root/sub\<close>, the files \<open>A\<close> and \<open>B\<close> in it and the file \<open>C\<close> in \<open>root\<close>. The
  list has no entry for the root directory itself. The subfolder's local name is the
  one parsed from the title of its own page.
\<close>

theorem two_level_plan:
  assumes "client_get E w root_url = (w1, Inr pg_root)" and "status_code pg_root = 200"
    and "parse_listing (loads E) pg_root root_url =
           Inr (root, rid, [(JStr sid, JStr sub_row, JStr folder_type), (JStr idC, JStr fileC, tC)])"
    and "client_get E (cookies_clear E w1) (folders_url @ sid) = (w2, Inr pg_sub)"
    and "status_code pg_sub = 200"
    and "parse_listing (loads E) pg_sub (folders_url @ sid) =
           Inr (sub, sid', [(JStr idA, JStr fileA, tA), (JStr idB, JStr fileB, tB)])"
    and "tA \<noteq> JStr folder_type" and "tB \<noteq> JStr folder_type" and "tC \<noteq> JStr folder_type"
  shows "\<exists>t. get_folder_list E (Suc (Suc depth)) w root_url False
               = (cookies_clear E w2, Inr (True, Some t)) \<and>
             get_directory_structure E t (path_join E out root) =
               Inr [(JNull, path_join E (path_join E out root) sub),
                    (JStr idA, path_join E (path_join E (path_join E out root) sub) fileA),
                    (JStr idB, path_join E (path_join E (path_join E out root) sub) fileB),
                    (JStr idC, path_join E (path_join E out root) fileC)]"
proof -
  have sub: "get_folder_list E (Suc depth) (cookies_clear E w1) (folders_url @ sid) False =
               (cookies_clear E w2,
                Inr (True, Some (FolderDict (JStr sub) (JStr sid') (JStr folder_type)
                  (Some [Some (FolderDict (JStr fileA) (JStr idA) tA None),
                         Some (FolderDict (JStr fileB) (JStr idB) tB None)]))))"
    using assms(7,8)
    by (simp add: get_folder_list_rows [OF assms(4,5,6)] Let_def del: get_folder_list.simps)
  have root: "get_folder_list E (Suc (Suc depth)) w root_url False =
               (cookies_clear E w2,
                Inr (True, Some (FolderDict (JStr root) (JStr rid) (JStr folder_type)
                  (Some [Some (FolderDict (JStr sub) (JStr sid') (JStr folder_type)
                           (Some [Some (FolderDict (JStr fileA) (JStr idA) tA None),
                                  Some (FolderDict (JStr fileB) (JStr idB) tB None)])),
                         Some (FolderDict (JStr fileC) (JStr idC) tC None)]))))"
    using assms(9) sub
    by (simp add: get_folder_list_rows [OF assms(1,2,3)] Let_def del: get_folder_list.simps)
  show ?thesis
    unfolding root using assms(7,8,9) by simp
qed

lemma remote_root_plan:
  "get_directory_structure (remote []) root_tree [''root''] =
     Inr [(JNull, [''root'', ''sub'']), (JStr ''A'', [''root'', ''sub'', ''fileA'']),
          (JStr ''B'', [''root'', ''sub'', ''fileB'']), (JStr ''C'', [''root'', ''fileC''])]"
  by code_simp

theorem two_level_plan_witness:
  "\<exists>t. get_folder_list (remote []) 2 [] (folders_url @ ''ROOT'') False = ([], Inr (True, Some t)) \<and>
       get_directory_structure (remote []) t [''root''] =
         Inr [(JNull, [''root'', ''sub'']), (JStr ''A'', [''root'', ''sub'', ''fileA'']),
              (JStr ''B'', [''root'', ''sub'', ''fileB'']), (JStr ''C'', [''root'', ''fileC''])]"
proof -
  let ?E = "remote [] :: (fs, path, unit) env"
  have 1: "client_get ?E [] (folders_url @ ''ROOT'') = ([], Inr (listing_page ''root'' ''P-ROOT''))"
    by code_simp
  have 2: "status_code (listing_page ''root'' ''P-ROOT'') = 200"
    by code_simp
  have 3: "parse_listing (loads ?E) (listing_page ''root'' ''P-ROOT'') (folders_url @ ''ROOT'') =
             Inr (''root'', ''ROOT'',
                  [(JStr ''SUB'', JStr ''sub'', JStr folder_type),
                   (JStr ''C'', JStr ''fileC'', JStr ''text/plain'')])"
    by code_simp
  have 4: "client_get ?E (cookies_clear ?E []) (folders_url @ ''SUB'') =
             ([], Inr (listing_page ''sub'' ''P-SUB''))"
    by code_simp
  have 5: "status_code (listing_page ''sub'' ''P-SUB'') = 200"
    by code_simp
  have 6: "parse_listing (loads ?E) (listing_page ''sub'' ''P-SUB'') (folders_url @ ''SUB'') =
             Inr (''sub'', ''SUB'',
                  [(JStr ''A'', JStr ''fileA'', JStr ''text/plain''),
                   (JStr ''B'', JStr ''fileB'', JStr ''image/png'')])"
    by code_simp
  have 7: "JStr ''text/plain'' \<noteq> JStr folder_type" "JStr ''image/png'' \<noteq> JStr folder_type"
    by (simp_all add: folder_type_def)
  have c: "cookies_clear ?E [] = []" by code_simp
  have j: "path_join ?E [] ''root'' = [''root'']"
    "path_join ?E [''root''] ''sub'' = [''root'', ''sub'']"
    "path_join ?E [''root'', ''sub''] ''fileA'' = [''root'', ''sub'', ''fileA'']"
    "path_join ?E [''root'', ''sub''] ''fileB'' = [''root'', ''sub'', ''fileB'']"
    "path_join ?E [''root''] ''fileC'' = [''root'', ''fileC'']"
    by code_simp+
  from two_level_plan [OF 1 2 3 4 5 6 7(1) 7(2) 7(1), of 0 "[]"]
  show ?thesis
    unfolding c j by (simp add: numeral_2_eq_2 del: get_folder_list.simps)
qed

text \<open>
  The sequence that C1 states, with the root's own directory first, is not what the
  code produces for the synthetic folder \<open>ROOT\<close>.
\<close>

theorem two_level_plan_counterexample:
  "get_folder_list (remote []) 3 [] (folders_url @ ''ROOT'') False
     = ([], Inr (True, Some root_tree)) \<and>
   get_directory_structure (remote []) root_tree [''root''] \<noteq>
     Inr [(JNull, [''root'']), (JNull, [''root'', ''sub'']),
          (JStr ''A'', [''root'', ''sub'', ''fileA'']),
          (JStr ''B'', [''root'', ''sub'', ''fileB'']), (JStr ''C'', [''root'', ''fileC''])]"
  by (simp add: remote_root remote_root_plan)

text \<open>
  C2, as the code has it. When the first element of the decoded array is null, the
  returned structure has an empty list as \<open>file_contents\<close>, and its directory structure
  is empty: not even the root directory is in it.
\<close>

theorem empty_listing:
  assumes "client_get E w folder = (w1, Inr pg)" and "status_code pg = 200"
    and "find_encoded_data (scripts pg) = Inr encoded_data"
    and "loads E encoded_data = Inr (JArr (JNull # others))"
    and "parse_title (title pg) = Inr name"
  shows "get_folder_list E (Suc depth) w folder use_cookies =
           (if \<not> use_cookies then cookies_clear E w1 else w1,
            Inr (True, Some (FolderDict (JStr name) (JStr (drop 39 folder)) (JStr folder_type)
                               (Some [])))) \<and>
         get_directory_structure E
           (FolderDict (JStr name) (JStr (drop 39 folder)) (JStr folder_type) (Some [])) p
           = Inr []"
proof -
  have "parse_listing (loads E) pg folder = Inr (name, drop 39 folder, [])"
    using assms(3,4,5) by (simp add: parse_listing_def)
  from get_folder_list_rows [OF assms(1,2) this] show ?thesis
    by (simp del: get_folder_list.simps)
qed

theorem empty_listing_witness:
  "get_folder_list (remote []) 1 [] (folders_url @ ''EMPTY'') True =
     ([], Inr (True, Some (FolderDict (JStr ''empty'') (JStr ''EMPTY'') (JStr folder_type)
                             (Some [])))) \<and>
   get_directory_structure (remote [])
     (FolderDict (JStr ''empty'') (JStr ''EMPTY'') (JStr folder_type) (Some [])) [''empty'']
     = Inr []"
proof -
  let ?E = "remote [] :: (fs, path, unit) env"
  have 1: "client_get ?E [] (folders_url @ ''EMPTY'') = ([], Inr (listing_page ''empty'' ''P-EMPTY''))"
    by code_simp
  have 2: "status_code (listing_page ''empty'' ''P-EMPTY'') = 200"
    by code_simp
  have 3: "find_encoded_data (scripts (listing_page ''empty'' ''P-EMPTY'')) = Inr ''P-EMPTY''"
    by code_simp
  have 4: "loads ?E ''P-EMPTY'' = Inr (JArr (JNull # [JInt 1]))"
    by code_simp
  have 5: "parse_title (title (listing_page ''empty'' ''P-EMPTY'')) = Inr ''empty''"
    by code_simp
  have d: "drop 39 (folders_url @ ''EMPTY'') = ''EMPTY''"
    by (simp add: folders_url_def)
  from empty_listing [OF 1 2 3 4 5, of 0 True "[''empty'']"] show ?thesis
    unfolding d by (simp del: get_folder_list.simps get_directory_structure.simps)
qed

theorem empty_listing_counterexample:
  "get_folder_list (remote []) 3 [] (folders_url @ ''EMPTY'') False =
     ([], Inr (True, Some (FolderDict (JStr ''empty'') (JStr ''EMPTY'') (JStr folder_type)
                             (Some [])))) \<and>
   get_directory_structure (remote [])
     (FolderDict (JStr ''empty'') (JStr ''EMPTY'') (JStr folder_type) (Some [])) [''empty'']
     \<noteq> Inr [(JNull, [''empty''])]"
proof -
  have "get_folder_list (remote []) 3 [] (folders_url @ ''EMPTY'') False =
     ([], Inr (True, Some (FolderDict (JStr ''empty'') (JStr ''EMPTY'') (JStr folder_type)
                             (Some []))))"
    by code_simp
  then show ?thesis by simp
qed

section \<open>Rows that lack an element\<close>

lemma py_getitem_error:
  "py_getitem v n = Inl e \<Longrightarrow> e \<in> {IndexError, TypeError, KeyError}"
  by (cases v) (auto split: if_splits)

lemma py_getitem_list_error: "py_getitem (JArr xs) n = Inl e \<Longrightarrow> e = IndexError"
  by (auto split: if_splits)

lemma column_error:
  "column n rows = Inl e \<Longrightarrow> \<exists>r \<in> set rows. py_getitem r n = Inl e"
  by (induction rows) (auto split: sum.splits)

lemma column_ok:
  "column n rows = Inr vs \<Longrightarrow> r \<in> set rows \<Longrightarrow> \<exists>v. py_getitem r n = Inr v"
  by (induction rows arbitrary: vs) (auto split: sum.splits)

lemma columns_fail:
  assumes "r \<in> set rows" and "py_getitem r 0 = Inl e0 \<or> py_getitem r 2 = Inl e0 \<or> py_getitem r 3 = Inl e0"
  shows "\<exists>e. (case column 0 rows of
                Inl e \<Rightarrow> Inl e
              | Inr a \<Rightarrow> (case column 2 rows of
                  Inl e \<Rightarrow> Inl e
                | Inr b \<Rightarrow> (case column 3 rows of
                    Inl e \<Rightarrow> Inl e
                  | Inr c \<Rightarrow> Inr (f a b c)))) = Inl e \<and>
             (\<exists>r' \<in> set rows. \<exists>n \<in> {0, 2, 3}. py_getitem r' n = Inl e)"
proof (cases "column 0 rows")
  case (Inl e)
  with column_error [OF Inl] show ?thesis by auto
next
  case a: (Inr a)
  show ?thesis
  proof (cases "column 2 rows")
    case (Inl e)
    with a column_error [OF Inl] show ?thesis by auto
  next
    case b: (Inr b)
    show ?thesis
    proof (cases "column 3 rows")
      case (Inl e)
      with a b column_error [OF Inl] show ?thesis by auto
    next
      case c: (Inr c)
      from assms column_ok [OF a assms(1)] column_ok [OF b assms(1)] column_ok [OF c assms(1)]
      show ?thesis by auto
    qed
  qed
qed

text \<open>
  C5, as the code has it. When a row of the listing lacks the element 0, 2 or 3, the
  comprehensions of lines 94-96 raise the built-in exception of the failing subscript
  (\<open>IndexError\<close> when the rows are lists, \<open>TypeError\<close> or \<open>KeyError\<close> for a row that is
  not a list or a str), after the request and the cookies were handled and before any
  row is processed. The exception is a constant: it carries no row index.
\<close>

theorem malformed_row:
  assumes "client_get E w folder = (w1, Inr pg)" and "status_code pg = 200"
    and "find_encoded_data (scripts pg) = Inr encoded_data"
    and "loads E encoded_data = Inr folder_arr"
    and "py_getitem folder_arr 0 = Inr (JArr rows)"
    and "parse_title (title pg) = Inr name"
    and "r \<in> set rows"
    and "py_getitem r 0 = Inl e0 \<or> py_getitem r 2 = Inl e0 \<or> py_getitem r 3 = Inl e0"
  shows "\<exists>e. get_folder_list E (Suc depth) w folder use_cookies =
               (if \<not> use_cookies then cookies_clear E w1 else w1, Inl e) \<and>
             e \<in> {IndexError, TypeError, KeyError} \<and>
             (list_all (\<lambda>x. case x of JArr xs \<Rightarrow> True | _ \<Rightarrow> False) rows \<longrightarrow> e = IndexError)"
proof -
  let ?f = "\<lambda>a b c. (name, drop 39 folder, zip a (zip b c))"
  from columns_fail [OF assms(7,8), of ?f]
  obtain e r' n where e: "(case column 0 rows of
                Inl e \<Rightarrow> Inl e
              | Inr a \<Rightarrow> (case column 2 rows of
                  Inl e \<Rightarrow> Inl e
                | Inr b \<Rightarrow> (case column 3 rows of
                    Inl e \<Rightarrow> Inl e
                  | Inr c \<Rightarrow> Inr (?f a b c)))) = Inl e"
    and r': "r' \<in> set rows" "py_getitem r' n = Inl e"
    by blast
  have "parse_listing (loads E) pg folder = Inl e"
    using assms(3,4,5,6) e by (simp add: parse_listing_def)
  from get_folder_list_parse_error [OF assms(1,2) this]
  have "get_folder_list E (Suc depth) w folder use_cookies =
          (if \<not> use_cookies then cookies_clear E w1 else w1, Inl e)" .
  moreover from r'(2) have "e \<in> {IndexError, TypeError, KeyError}"
    by (rule py_getitem_error)
  moreover have "e = IndexError"
    if "list_all (\<lambda>x. case x of JArr xs \<Rightarrow> True | _ \<Rightarrow> False) rows"
  proof -
    from that r'(1) obtain xs where "r' = JArr xs"
      by (cases r') (auto simp: list_all_iff)
    with r'(2) show ?thesis using py_getitem_list_error by blast
  qed
  ultimately show ?thesis by blast
qed

theorem malformed_row_witness:
  "get_folder_list (remote []) 1 [] (folders_url @ ''SHORT1'') True = ([], Inl IndexError)"
proof -
  let ?E = "remote [] :: (fs, path, unit) env"
  let ?rows = "[row ''Y'' ''fileY'' ''text/plain'', JArr [JStr ''X'']]"
  have 1: "client_get ?E [] (folders_url @ ''SHORT1'') =
             ([], Inr (listing_page ''short1'' ''P-SHORT1''))"
    by code_simp
  have 2: "status_code (listing_page ''short1'' ''P-SHORT1'') = 200"
    by code_simp
  have 3: "find_encoded_data (scripts (listing_page ''short1'' ''P-SHORT1'')) = Inr ''P-SHORT1''"
    by code_simp
  have 4: "loads ?E ''P-SHORT1'' = Inr (JArr [JArr ?rows])"
    by code_simp
  have 5: "py_getitem (JArr [JArr ?rows]) 0 = Inr (JArr ?rows)"
    by simp
  have 6: "parse_title (title (listing_page ''short1'' ''P-SHORT1'')) = Inr ''short1''"
    by code_simp
  have 7: "JArr [JStr ''X''] \<in> set ?rows"
    by simp
  have 8: "py_getitem (JArr [JStr ''X'']) 0 = Inl IndexError \<or>
           py_getitem (JArr [JStr ''X'']) 2 = Inl IndexError \<or>
           py_getitem (JArr [JStr ''X'']) 3 = Inl IndexError"
    by simp
  have 9: "list_all (\<lambda>x. case x of JArr xs \<Rightarrow> True | _ \<Rightarrow> False) ?rows"
    by (simp add: row_def)
  from malformed_row [OF 1 2 3 4 5 6 7 8, of 0 True] 9 show ?thesis
    by (auto simp del: get_folder_list.simps)
qed

text \<open>
  The same exception, with nothing in it, whether the short row is row 0 or row 1 of
  the listing: there is no \<open>MalformedEntry\<close> error and no row index.
\<close>

theorem malformed_row_counterexample:
  "get_folder_list (remote []) 3 [] (folders_url @ ''SHORT0'') False = ([], Inl IndexError) \<and>
   get_folder_list (remote []) 3 [] (folders_url @ ''SHORT1'') False = ([], Inl IndexError)"
  by code_simp

section \<open>Creating a directory twice\<close>

declare mkdir_parents.simps [simp del]







lemma fs_lookup_file:
  "(fs_lookup (f @ map (\<lambda>q. (q, Dir)) ds) q = Some File) = (fs_lookup f q = Some File)"
  by (auto simp: fs_lookup_def map_add_def map_of_map_restrict restrict_map_def
           split: option.splits if_splits)

lemma file_on_path_dirs:
  "file_on_path (f @ map (\<lambda>q. (q, Dir)) ds) cur cs = file_on_path f cur cs"
  by (induction cs arbitrary: cur) (simp_all add: fs_lookup_file)












section \<open>Runs with a log\<close>

lemma logged_simps [simp]:
  "client_get (logged E) wl url =
     (case client_get E (fst wl) url of
        (w', r) \<Rightarrow> ((w', snd wl @ [EvGet url (map_sum id status_code r)]), r))"
  "cookies_clear (logged E) wl = (cookies_clear E (fst wl), snd wl @ [EvClear])"
  "loads (logged E) = loads E"
  "path_cwd (logged E) wl = path_cwd E (fst wl)"
  "path_of (logged E) = path_of E"
  "path_join (logged E) = path_join E"
  "path_mkdir (logged E) wl p =
     (case path_mkdir E (fst wl) p of (w', r) \<Rightarrow> ((w', snd wl @ [EvMkdir p r]), r))"
  "download (logged E) wl url p opts use_cookies =
     (case download E (fst wl) url p opts use_cookies of
        (w', r) \<Rightarrow> ((w', snd wl @ [EvDownload url p use_cookies r]), r))"
  by (simp_all add: logged_def)

text \<open>The log changes nothing: without it, a run on the wrapped collaborators is the run.\<close>

lemma process_rows_unlogged:
  assumes "\<And>wl url. unlogged (get_folder_list (logged E) depth wl url uc)
                       = get_folder_list E depth (fst wl) url uc"
  shows "unlogged (process_rows (logged E) depth wl uc rows rc0 hdr contents)
           = process_rows E depth (fst wl) uc rows rc0 hdr contents"
proof (induction rows arbitrary: wl rc0 contents)
  case Nil
  then show ?case by (simp add: unlogged_def)
next
  case (Cons x rows)
  obtain f_id f_name f_type where x: "x = (f_id, f_name, f_type)" by (cases x)
  show ?case
  proof (cases "f_type \<noteq> JStr folder_type")
    case True
    then show ?thesis using Cons.IH by (simp add: x Let_def unlogged_def)
  next
    case False
    show ?thesis
    proof (cases "py_str_add folders_url f_id")
      case (Inl e)
      with False show ?thesis by (simp add: x unlogged_def)
    next
      case (Inr url)
      obtain wl1 g where g: "get_folder_list (logged E) depth wl url uc = (wl1, g)"
        by (cases "get_folder_list (logged E) depth wl url uc")
      with assms [of wl url] have g': "get_folder_list E depth (fst wl) url uc = (fst wl1, g)"
        by (simp add: unlogged_def)
      show ?thesis
        using False Inr g g' Cons.IH
        by (auto simp: x unlogged_def split: sum.splits prod.splits)
    qed
  qed
qed

lemma get_folder_list_unlogged:
  "unlogged (get_folder_list (logged E) depth wl folder uc)
     = get_folder_list E depth (fst wl) folder uc"
proof (induction depth arbitrary: wl folder)
  case 0
  then show ?case by (simp add: unlogged_def)
next
  case (Suc depth)
  note pr = process_rows_unlogged [of E depth uc, OF Suc.IH]
  obtain w1 g where g: "client_get E (fst wl) folder = (w1, g)"
    by (cases "client_get E (fst wl) folder")
  show ?case
  proof (cases g)
    case (Inl e)
    with g show ?thesis by (simp add: unlogged_def)
  next
    case (Inr pg)
    show ?thesis
    proof (cases "status_code pg \<noteq> 200")
      case True
      with g Inr show ?thesis by (simp add: unlogged_def)
    next
      case False
      show ?thesis
      proof (cases "parse_listing (loads E) pg folder")
        case (Inl e)
        with g \<open>g = Inr pg\<close> False show ?thesis by (simp add: unlogged_def Let_def)
      next
        case r: (Inr res)
        obtain name fid rows where "res = (name, fid, rows)" by (cases res)
        with g \<open>g = Inr pg\<close> False r show ?thesis
          using pr by (simp add: Let_def)
      qed
    qed
  qed
qed

lemma download_loop_unlogged:
  "unlogged (download_loop (logged E) opts uc wl plan rc)
     = download_loop E opts uc (fst wl) plan rc"
proof (induction plan arbitrary: wl rc)
  case Nil
  then show ?case by (simp add: unlogged_def)
next
  case (Cons x plan)
  obtain f_id p where x: "x = (f_id, p)" by (cases x)
  show ?case
    using Cons.IH
    by (auto simp: x unlogged_def split: sum.splits prod.splits option.splits)
qed

section \<open>A failed request while the structure is built\<close>

lemma listing_log_ok_Nil: "listing_log_ok [] r"
  by (simp add: listing_log_ok_def)

lemma listing_log_ok_append:
  assumes "listing_log_ok l1 (Inr (True, fs))" and "listing_log_ok l2 r"
  shows "listing_log_ok (l1 @ l2) r"
proof -
  from assms(1) have no: "\<not> list_ex failed_get l1"
    by (auto simp: listing_log_ok_def split: if_splits)
  have "butlast (l1 @ l2) = (if l2 = [] then butlast l1 else l1 @ butlast l2)"
    by (simp add: butlast_append)
  moreover have "\<not> list_ex failed_get (butlast l1)"
    using assms(1) by (simp add: listing_log_ok_def)
  ultimately show ?thesis
    using assms no by (auto simp: listing_log_ok_def list_ex_iff split: if_splits)
qed

lemma listing_log_ok_failed:
  "listing_log_ok l (Inr (False, fs)) \<Longrightarrow> listing_log_ok l (Inr (False, None))"
  by (simp add: listing_log_ok_def)

lemma process_rows_log:
  assumes sub: "\<And>wl url wl' r. get_folder_list (logged E) depth wl url uc = (wl', r) \<Longrightarrow>
                  \<exists>l2. snd wl' = snd wl @ l2 \<and> listing_log_ok l2 r"
    and "process_rows (logged E) depth wl uc rows rc0 hdr contents = (wl', r)"
  shows "\<exists>l2. snd wl' = snd wl @ l2 \<and> listing_log_ok l2 r"
  using assms(2)
proof (induction rows arbitrary: wl rc0 contents)
  case Nil
  then show ?case by (auto simp: listing_log_ok_Nil)
next
  case (Cons x rows)
  obtain f_id f_name f_type where x: "x = (f_id, f_name, f_type)" by (cases x)
  from Cons.prems [unfolded x] show ?case
  proof (cases rule: process_rows_cases)
    case plain
    then show ?thesis using Cons.IH by blast
  next
    case plain_stop
    then show ?thesis by (simp add: listing_log_ok_Nil)
  next
    case (bad_id e)
    then show ?thesis by (simp add: listing_log_ok_Nil)
  next
    case (raised url e)
    from sub [OF raised(3)] raised(4) show ?thesis by simp
  next
    case (failed url fs)
    from sub [OF failed(3)] failed(4) show ?thesis
      by (auto dest: listing_log_ok_failed)
  next
    case (folder url w1 fs)
    from sub [OF folder(3)] obtain l1 where l1: "snd w1 = snd wl @ l1"
      "listing_log_ok l1 (Inr (True, fs))" by blast
    from Cons.IH [OF folder(4)] obtain l2 where l2: "snd wl' = snd w1 @ l2"
      "listing_log_ok l2 r" by blast
    from l1 l2 have "snd wl' = snd wl @ (l1 @ l2)" by simp
    moreover from l1(2) l2(2) have "listing_log_ok (l1 @ l2) r"
      by (rule listing_log_ok_append)
    ultimately show ?thesis by blast
  qed
qed

lemma logged_client_get:
  "client_get (logged E) wl url = (wl', g) \<Longrightarrow>
     snd wl' = snd wl @ [EvGet url (map_sum id status_code g)]"
  by (auto split: prod.splits)

lemma get_folder_list_log:
  "get_folder_list (logged E) depth wl folder uc = (wl', r) \<Longrightarrow>
     \<exists>l2. snd wl' = snd wl @ l2 \<and> listing_log_ok l2 r"
proof (induction depth arbitrary: wl folder wl' r)
  case 0
  then show ?case by (auto simp: listing_log_ok_Nil)
next
  case (Suc depth)
  from Suc.prems show ?case
  proof (cases rule: get_folder_list_cases)
    case (raised e)
    from logged_client_get [OF raised(1)] show ?thesis
      by (simp add: listing_log_ok_def)
  next
    case (status pg)
    from logged_client_get [OF status(1)] status(2,3) show ?thesis
      by (simp add: listing_log_ok_def)
  next
    case (parse_error w1 pg e)
    from logged_client_get [OF parse_error(1)] parse_error(2,3) show ?thesis
      by (simp add: listing_log_ok_def)
  next
    case (rows w1 pg name fid rows)
    let ?w2 = "if \<not> uc then cookies_clear (logged E) w1 else w1"
    from logged_client_get [OF rows(1)] rows(2)
    obtain l1 where l1: "snd ?w2 = snd wl @ l1" "listing_log_ok l1 (Inr (True, None))"
      by (cases uc) (simp_all add: listing_log_ok_def)
    from rows(4) have "\<exists>l2. snd wl' = snd ?w2 @ l2 \<and> listing_log_ok l2 r"
      by (rule process_rows_log [rotated]) (rule Suc.IH)
    then obtain l2 where l2: "snd wl' = snd ?w2 @ l2" "listing_log_ok l2 r" by blast
    from l1 l2 have "snd wl' = snd wl @ (l1 @ l2)" by simp
    moreover from l1(2) l2(2) have "listing_log_ok (l1 @ l2) r"
      by (rule listing_log_ok_append)
    ultimately show ?thesis by blast
  qed
qed

text \<open>
  C3. In a run of \<open>get_folder_list\<close>, at any depth of the recursion, a request that is
  answered with a status other than 200 is the last call the run makes, and the run
  returns \<open>(False, None)\<close>: no structure at all, whatever rows had been processed
  before. This is for the run on any collaborators, seen through its log.
\<close>

theorem failed_fetch_no_tree:
  assumes "get_folder_list (logged E) depth (w, []) folder use_cookies = ((w', l), r)"
    and "e \<in> set l" and "failed_get e"
  shows "r = Inr (False, None) \<and> last l = e \<and>
         get_folder_list E depth w folder use_cookies = (w', Inr (False, None))"
proof -
  from get_folder_list_log [OF assms(1)] have ok: "listing_log_ok l r" by simp
  from assms(2,3) have ex: "list_ex failed_get l" by (auto simp: list_ex_iff)
  with ok have r: "r = Inr (False, None)" by (simp add: listing_log_ok_def)
  from assms(2) have "l \<noteq> []" by auto
  then have "l = butlast l @ [last l]" by simp
  with assms(2) have "e \<in> set (butlast l) \<or> e = last l"
    by (metis Un_iff empty_iff empty_set set_ConsD set_append)
  moreover from ok assms(3) have "e \<notin> set (butlast l)"
    by (auto simp: listing_log_ok_def list_ex_iff)
  ultimately have "last l = e" by simp
  moreover from get_folder_list_unlogged [of E depth "(w, [])" folder use_cookies] assms(1) r
  have "get_folder_list E depth w folder use_cookies = (w', Inr (False, None))"
    by (simp add: unlogged_def)
  ultimately show ?thesis using r by simp
qed

lemma remote_top_log:
  "get_folder_list (logged (remote [])) 3 ([], []) (folders_url @ ''TOP'') False =
     (([], [EvGet (folders_url @ ''TOP'') (Inr 200), EvClear,
            EvGet (folders_url @ ''GONE'') (Inr 404)]),
      Inr (False, None))"
  by code_simp

theorem failed_fetch_no_tree_witness:
  "get_folder_list (logged (remote [])) 3 ([], []) (folders_url @ ''TOP'') False =
     (([], [EvGet (folders_url @ ''TOP'') (Inr 200), EvClear,
            EvGet (folders_url @ ''GONE'') (Inr 404)]),
      Inr (False, None)) \<and>
   get_folder_list (remote []) 3 [] (folders_url @ ''TOP'') False = ([], Inr (False, None))"
proof -
  have "EvGet (folders_url @ ''GONE'') (Inr 404) \<in>
          set [EvGet (folders_url @ ''TOP'') (Inr 200), EvClear,
               EvGet (folders_url @ ''GONE'') (Inr 404) :: path event]"
    by simp
  moreover have "failed_get (EvGet (folders_url @ ''GONE'') (Inr 404) :: path event)"
    by simp
  ultimately show ?thesis
    using failed_fetch_no_tree [OF remote_top_log] remote_top_log by blast
qed

section \<open>The download loop\<close>

lemma download_loop_append:
  "download_loop E opts uc w pre rc = (w1, Inr True) \<Longrightarrow> rc \<Longrightarrow>
     download_loop E opts uc w (pre @ post) rc = download_loop E opts uc w1 post True"
proof (induction pre arbitrary: w rc)
  case Nil
  then show ?case by simp
next
  case (Cons x pre)
  obtain f_id p where x: "x = (f_id, p)" by (cases x)
  show ?case
  proof (cases "f_id = JNull")
    case True
    obtain w' m where m: "path_mkdir E w p = (w', m)" by (cases "path_mkdir E w p")
    with Cons.prems True x show ?thesis
      by (cases m) (auto dest: Cons.IH)
  next
    case False
    show ?thesis
    proof (cases "py_str_add files_url f_id")
      case (Inl e)
      with Cons.prems False x show ?thesis by simp
    next
      case (Inr url)
      obtain w' d where d: "download E w url p opts uc = (w', d)"
        by (cases "download E w url p opts uc")
      show ?thesis
      proof (cases d)
        case (Inl e)
        with Cons.prems False x \<open>py_str_add files_url f_id = Inr url\<close> d show ?thesis by simp
      next
        case r: (Inr rc')
        with Cons.prems False x Inr d show ?thesis
          by (cases rc') (auto dest: Cons.IH)
      qed
    qed
  qed
qed

lemma py_str_add_Inr: "py_str_add s v = Inr u \<Longrightarrow> \<exists>t. v = JStr t \<and> u = s @ t"
  by (cases v) auto

lemma download_loop_trace:
  "download_loop (logged E) opts uc wl pre rc = (wl1, Inr True) \<Longrightarrow> rc \<Longrightarrow>
     \<exists>l2. snd wl1 = snd wl @ l2 \<and> map event_action l2 = map Some pre"
proof (induction pre arbitrary: wl rc)
  case Nil
  then show ?case by simp
next
  case (Cons x pre)
  obtain f_id p where x: "x = (f_id, p)" by (cases x)
  show ?case
  proof (cases "f_id = JNull")
    case True
    obtain w' m where m: "path_mkdir E (fst wl) p = (w', m)"
      by (cases "path_mkdir E (fst wl) p")
    show ?thesis
    proof (cases m)
      case None
      with Cons.prems True x m
      have "download_loop (logged E) opts uc (w', snd wl @ [EvMkdir p None]) pre rc
              = (wl1, Inr True)"
        by simp
      from Cons.IH [OF this Cons.prems(2)] obtain l2 where
        "snd wl1 = (snd wl @ [EvMkdir p None]) @ l2" "map event_action l2 = map Some pre"
        by auto
      then have "snd wl1 = snd wl @ (EvMkdir p None # l2) \<and>
                 map event_action (EvMkdir p None # l2) = map Some (x # pre)"
        using True x by simp
      then show ?thesis by blast
    next
      case (Some e)
      with Cons.prems True x m show ?thesis by simp
    qed
  next
    case False
    show ?thesis
    proof (cases "py_str_add files_url f_id")
      case (Inl e)
      with Cons.prems False x show ?thesis by simp
    next
      case (Inr url)
      from py_str_add_Inr [OF Inr] obtain t where t: "f_id = JStr t" "url = files_url @ t"
        by blast
      obtain w' d where d: "download E (fst wl) url p opts uc = (w', d)"
        by (cases "download E (fst wl) url p opts uc")
      show ?thesis
      proof (cases d)
        case (Inl e)
        with Cons.prems False x \<open>py_str_add files_url f_id = Inr url\<close> d show ?thesis by simp
      next
        case r: (Inr rc')
        show ?thesis
        proof (cases rc')
          case True
          with Cons.prems False x Inr d r
          have "download_loop (logged E) opts uc
                  (w', snd wl @ [EvDownload url p uc (Inr True)]) pre True = (wl1, Inr True)"
            by simp
          from Cons.IH [OF this] obtain l2 where
            "snd wl1 = (snd wl @ [EvDownload url p uc (Inr True)]) @ l2"
            "map event_action l2 = map Some pre"
            by auto
          then have "snd wl1 = snd wl @ (EvDownload url p uc (Inr True) # l2) \<and>
                     map event_action (EvDownload url p uc (Inr True) # l2) = map Some (x # pre)"
            using t x by simp
          then show ?thesis by blast
        next
          case False
          with Cons.prems \<open>f_id \<noteq> JNull\<close> x Inr d r show ?thesis by simp
        qed
      qed
    qed
  qed
qed

text \<open>
  C4. The pairs before a download that fails are carried out one after the other in
  the order of the list (the log of the calls is the list of these pairs); the failing
  download is the last call, the run returns \<open>False\<close> at once, the world is the one
  the failing download left after all the earlier calls, and nothing that follows in
  the list is carried out, whatever it is. The run without the log returns the same.
\<close>

theorem run_stops_at_failed_download:
  assumes "download_loop (logged E) opts use_cookies (w, []) pre True = ((w1, l1), Inr True)"
    and "download E w1 (files_url @ fid) p opts use_cookies = (w2, Inr False)"
  shows "download_loop (logged E) opts use_cookies (w, []) (pre @ (JStr fid, p) # post) True =
           ((w2, l1 @ [EvDownload (files_url @ fid) p use_cookies (Inr False)]), Inr False) \<and>
         map event_action l1 = map Some pre \<and>
         download_loop E opts use_cookies w (pre @ (JStr fid, p) # post) True = (w2, Inr False)"
proof -
  have run: "download_loop (logged E) opts use_cookies (w, []) (pre @ (JStr fid, p) # post) True =
           ((w2, l1 @ [EvDownload (files_url @ fid) p use_cookies (Inr False)]), Inr False)"
    using assms(2) by (simp add: download_loop_append [OF assms(1)])
  moreover from download_loop_trace [OF assms(1)] have "map event_action l1 = map Some pre"
    by simp
  moreover
  from download_loop_unlogged
    [of E opts use_cookies "(w, [])" "pre @ (JStr fid, p) # post" True] run
  have "download_loop E opts use_cookies w (pre @ (JStr fid, p) # post) True = (w2, Inr False)"
    by (simp add: unlogged_def)
  ultimately show ?thesis by simp
qed

theorem run_stops_at_failed_download_witness:
  "download_loop (logged (remote [files_url @ ''B''])) () True ([], [])
     ([(JNull, [''d'']), (JStr ''A'', [''d'', ''a''])] @ (JStr ''B'', [''d'', ''b'']) #
      [(JStr ''C'', [''d'', ''c'']), (JNull, [''e''])]) True =
     (([([''d''], Dir), ([''d'', ''a''], File)],
       [EvMkdir [''d''] None, EvDownload (files_url @ ''A'') [''d'', ''a''] True (Inr True)] @
       [EvDownload (files_url @ ''B'') [''d'', ''b''] True (Inr False)]),
      Inr False) \<and>
   download_loop (remote [files_url @ ''B'']) () True []
     ([(JNull, [''d'']), (JStr ''A'', [''d'', ''a''])] @ (JStr ''B'', [''d'', ''b'']) #
      [(JStr ''C'', [''d'', ''c'']), (JNull, [''e''])]) True =
     ([([''d''], Dir), ([''d'', ''a''], File)], Inr False)"
proof -
  let ?E = "remote [files_url @ ''B''] :: (fs, path, unit) env"
  have 1: "download_loop (logged ?E) () True ([], [])
             [(JNull, [''d'']), (JStr ''A'', [''d'', ''a''])] True =
           (([([''d''], Dir), ([''d'', ''a''], File)],
             [EvMkdir [''d''] None, EvDownload (files_url @ ''A'') [''d'', ''a''] True (Inr True)]),
            Inr True)"
    by code_simp
  have 2: "download ?E [([''d''], Dir), ([''d'', ''a''], File)] (files_url @ ''B'') [''d'', ''b'']
             () True = ([([''d''], Dir), ([''d'', ''a''], File)], Inr False)"
    by code_simp
  from run_stops_at_failed_download
    [OF 1 2, of "[(JStr ''C'', [''d'', ''c'']), (JNull, [''e''])]"]
  show ?thesis by blast
qed

section \<open>The listing phase and \<open>use_cookies\<close>\<close>

lemma download_loop_events:
  "download_loop (logged E) opts uc wl plan rc = (wl', r) \<Longrightarrow>
     \<exists>l2. snd wl' = snd wl @ l2 \<and> list_all (download_event uc) l2 \<and>
          map event_action l2 = map Some (take (length l2) plan)"
proof (induction plan arbitrary: wl rc)
  case Nil
  then show ?case by simp
next
  case (Cons x plan)
  obtain f_id p where x: "x = (f_id, p)" by (cases x)
  show ?case
  proof (cases "f_id = JNull")
    case True
    obtain w' m where m: "path_mkdir E (fst wl) p = (w', m)"
      by (cases "path_mkdir E (fst wl) p")
    have ev: "list_all (download_event uc) [EvMkdir p m]"
      "map event_action [EvMkdir p m] = [Some x]"
      using True x by (simp_all add: download_event_def)
    show ?thesis
    proof (cases m)
      case None
      with Cons.prems True x m
      have "download_loop (logged E) opts uc (w', snd wl @ [EvMkdir p m]) plan rc = (wl', r)"
        by simp
      from Cons.IH [OF this] obtain l2 where
        "snd wl' = (snd wl @ [EvMkdir p m]) @ l2" "list_all (download_event uc) l2"
        "map event_action l2 = map Some (take (length l2) plan)"
        by auto
      then have "snd wl' = snd wl @ (EvMkdir p m # l2) \<and>
                 list_all (download_event uc) (EvMkdir p m # l2) \<and>
                 map event_action (EvMkdir p m # l2) =
                   map Some (take (length (EvMkdir p m # l2)) (x # plan))"
        using ev by simp
      then show ?thesis by blast
    next
      case (Some e)
      with Cons.prems True x m have "snd wl' = snd wl @ [EvMkdir p m]"
        by auto
      with ev have "snd wl' = snd wl @ [EvMkdir p m] \<and>
                 list_all (download_event uc) [EvMkdir p m] \<and>
                 map event_action [EvMkdir p m] =
                   map Some (take (length [EvMkdir p m]) (x # plan))"
        by simp
      then show ?thesis by blast
    qed
  next
    case False
    show ?thesis
    proof (cases "py_str_add files_url f_id")
      case (Inl e)
      with Cons.prems False x show ?thesis by auto
    next
      case (Inr url)
      from py_str_add_Inr [OF Inr] obtain t where t: "f_id = JStr t" "url = files_url @ t"
        by blast
      obtain w' d where d: "download E (fst wl) url p opts uc = (w', d)"
        by (cases "download E (fst wl) url p opts uc")
      have ev: "list_all (download_event uc) [EvDownload url p uc d]"
        "map event_action [EvDownload url p uc d] = [Some x]"
        using t x by (simp_all add: download_event_def)
      show ?thesis
      proof (cases "d = Inr True")
        case True
        with Cons.prems False x Inr d
        have "download_loop (logged E) opts uc
                (w', snd wl @ [EvDownload url p uc d]) plan True = (wl', r)"
          by simp
        from Cons.IH [OF this] obtain l2 where
          "snd wl' = (snd wl @ [EvDownload url p uc d]) @ l2" "list_all (download_event uc) l2"
          "map event_action l2 = map Some (take (length l2) plan)"
          by auto
        then have "snd wl' = snd wl @ (EvDownload url p uc d # l2) \<and>
                   list_all (download_event uc) (EvDownload url p uc d # l2) \<and>
                   map event_action (EvDownload url p uc d # l2) =
                     map Some (take (length (EvDownload url p uc d # l2)) (x # plan))"
          using ev by simp
        then show ?thesis by blast
      next
        case stop: False
        with Cons.prems False x Inr d have "snd wl' = snd wl @ [EvDownload url p uc d]"
          by (cases d) (auto split: if_splits)
        with ev have "snd wl' = snd wl @ [EvDownload url p uc d] \<and>
                   list_all (download_event uc) [EvDownload url p uc d] \<and>
                   map event_action [EvDownload url p uc d] =
                     map Some (take (length [EvDownload url p uc d]) (x # plan))"
          by simp
        then show ?thesis by blast
      qed
    qed
  qed
qed

text \<open>\<open>download_folder\<close> is its retrieval phase followed by the loop.\<close>

lemma download_folder_phases:
  "download_folder E depth w folder output opts uc =
     (case retrieval_phase E depth w folder output of
        (w1, Inl e) \<Rightarrow> (w1, Inl e)
      | (w1, Inr None) \<Rightarrow> (w1, Inr False)
      | (w1, Inr (Some (folder_list, directory_structure))) \<Rightarrow>
          download_loop E opts uc w1 directory_structure True)"
  by (auto simp: download_folder_def retrieval_phase_def Let_def
           split: prod.splits sum.splits option.splits)

lemma py_truediv_logged [simp]: "py_truediv (logged E) p v = py_truediv E p v"
  by (cases v) simp_all

lemma get_directory_structure_logged:
  "get_directory_structure (logged E) d p = get_directory_structure E d p"
  "directory_loop (logged E) files p acc = directory_loop E files p acc"
  by (induction E d p and E files p acc rule: get_directory_structure_directory_loop.induct)
     (auto split: option.splits sum.splits)

lemma retrieval_phase_unlogged:
  "unlogged (retrieval_phase (logged E) depth wl folder output) =
     retrieval_phase E depth (fst wl) folder output"
proof -
  obtain wl1 g where g: "get_folder_list (logged E) depth wl folder False = (wl1, g)"
    by (cases "get_folder_list (logged E) depth wl folder False")
  with get_folder_list_unlogged [of E depth wl folder False]
  have g': "get_folder_list E depth (fst wl) folder False = (fst wl1, g)"
    by (simp add: unlogged_def)
  show ?thesis
    by (auto simp: retrieval_phase_def g g' unlogged_def Let_def get_directory_structure_logged
             split: sum.splits option.splits)
qed

lemma retrieval_phase_log:
  "snd (fst (retrieval_phase (logged E) depth wl folder output)) =
     snd (fst (get_folder_list (logged E) depth wl folder False))"
  by (auto simp: retrieval_phase_def Let_def split: prod.splits sum.splits option.splits)

lemma download_folder_log:
  "\<exists>l2. snd (fst (download_folder (logged E) depth (w, []) folder output opts uc)) =
          snd (fst (get_folder_list (logged E) depth (w, []) folder False)) @ l2 \<and>
        list_all (download_event uc) l2 \<and>
        map event_action l2 = map Some (take (length l2) (planned E depth w folder output))"
proof -
  obtain wl1 r where r: "retrieval_phase (logged E) depth (w, []) folder output = (wl1, r)"
    by (cases "retrieval_phase (logged E) depth (w, []) folder output")
  with retrieval_phase_unlogged [of E depth "(w, [])" folder "output"]
  have r': "retrieval_phase E depth w folder output = (fst wl1, r)"
    by (simp add: unlogged_def)
  from retrieval_phase_log [of E depth "(w, [])" folder "output"] r
  have l1: "snd (fst (get_folder_list (logged E) depth (w, []) folder False)) = snd wl1"
    by simp
  show ?thesis
  proof (cases "\<exists>fl ds. r = Inr (Some (fl, ds))")
    case False
    then have "snd (fst (download_folder (logged E) depth (w, []) folder output opts uc)) =
                 snd wl1"
      by (auto simp: download_folder_phases r split: sum.splits option.splits)
    then show ?thesis
      by (simp add: l1)
  next
    case True
    then obtain fl ds where ds: "r = Inr (Some (fl, ds))" by blast
    obtain wl2 r2 where run: "download_loop (logged E) opts uc wl1 ds True = (wl2, r2)"
      by (cases "download_loop (logged E) opts uc wl1 ds True")
    have "planned E depth w folder output = ds"
      by (simp add: planned_def r' ds)
    moreover
    have "snd (fst (download_folder (logged E) depth (w, []) folder output opts uc)) = snd wl2"
      by (simp add: download_folder_phases r ds run)
    ultimately show ?thesis
      using download_loop_events [OF run] by (simp add: l1)
  qed
qed

lemma filter_listing:
  assumes "list_all listing_event l1" and "list_all (download_event uc) l2"
  shows "filter listing_event (l1 @ l2) = l1"
    and "filter (\<lambda>e. \<not> listing_event e) (l1 @ l2) = l2"
proof -
  from assms(1) have "filter listing_event l1 = l1" "filter (\<lambda>e. \<not> listing_event e) l1 = []"
    by (auto simp: list_all_iff filter_empty_conv)
  moreover from assms(2)
  have "filter listing_event l2 = []" "filter (\<lambda>e. \<not> listing_event e) l2 = l2"
    by (auto simp: list_all_iff download_event_def filter_empty_conv)
  ultimately show "filter listing_event (l1 @ l2) = l1"
    and "filter (\<lambda>e. \<not> listing_event e) (l1 @ l2) = l2"
    by simp_all
qed

lemma listing_event_cookies: "listing_event e \<Longrightarrow> download_cookies e = None"
  by (cases e) simp_all

text \<open>
  C10. \<open>download_folder\<close> is its retrieval phase followed by its loop, and the
  retrieval phase does not have \<open>use_cookies\<close> among its arguments: two runs from the
  same world that differ only in \<open>use_cookies\<close> have the same folder list and the
  same directory structure. As the calls show it: in both runs the requests
  and the clearings of the cookies are those of \<open>get_folder_list\<close> called with
  \<open>use_cookies=False\<close>, and the \<open>mkdir\<close> and \<open>download\<close> calls of each run are given,
  in order, the paths and the ids of one and the same directory structure, as far as
  the run gets. \<open>use_cookies\<close> shows only in the download calls, each of which is
  called with the caller's value.
\<close>

theorem listing_ignores_use_cookies:
  "download_folder E depth w folder output opts use_cookies =
     (case retrieval_phase E depth w folder output of
        (w1, Inl e) \<Rightarrow> (w1, Inl e)
      | (w1, Inr None) \<Rightarrow> (w1, Inr False)
      | (w1, Inr (Some (folder_list, directory_structure))) \<Rightarrow>
          download_loop E opts use_cookies w1 directory_structure True) \<and>
   download_folder E depth w folder output opts (\<not> use_cookies) =
     (case retrieval_phase E depth w folder output of
        (w1, Inl e) \<Rightarrow> (w1, Inl e)
      | (w1, Inr None) \<Rightarrow> (w1, Inr False)
      | (w1, Inr (Some (folder_list, directory_structure))) \<Rightarrow>
          download_loop E opts (\<not> use_cookies) w1 directory_structure True) \<and>
   filter listing_event
     (snd (fst (download_folder (logged E) depth (w, []) folder output opts use_cookies))) =
   snd (fst (get_folder_list (logged E) depth (w, []) folder False)) \<and>
   filter listing_event
     (snd (fst (download_folder (logged E) depth (w, []) folder output opts use_cookies))) =
   filter listing_event
     (snd (fst (download_folder (logged E) depth (w, []) folder output opts (\<not> use_cookies)))) \<and>
   map event_action (filter (\<lambda>e. \<not> listing_event e)
     (snd (fst (download_folder (logged E) depth (w, []) folder output opts use_cookies)))) =
   map Some (take (length (filter (\<lambda>e. \<not> listing_event e)
     (snd (fst (download_folder (logged E) depth (w, []) folder output opts use_cookies)))))
     (planned E depth w folder output)) \<and>
   map event_action (filter (\<lambda>e. \<not> listing_event e)
     (snd (fst (download_folder (logged E) depth (w, []) folder output opts (\<not> use_cookies))))) =
   map Some (take (length (filter (\<lambda>e. \<not> listing_event e)
     (snd (fst (download_folder (logged E) depth (w, []) folder output opts (\<not> use_cookies))))))
     (planned E depth w folder output)) \<and>
   list_all (\<lambda>e. download_cookies e = None \<or> download_cookies e = Some use_cookies)
     (snd (fst (download_folder (logged E) depth (w, []) folder output opts use_cookies)))"
proof -
  let ?l1 = "snd (fst (get_folder_list (logged E) depth (w, []) folder False))"
  let ?log = "\<lambda>uc. snd (fst (download_folder (logged E) depth (w, []) folder output opts uc))"
  let ?rest = "filter (\<lambda>e. \<not> listing_event e)"
  obtain wl1 g where g: "get_folder_list (logged E) depth (w, []) folder False = (wl1, g)"
    by (cases "get_folder_list (logged E) depth (w, []) folder False")
  from get_folder_list_log [OF g] have l1: "list_all listing_event ?l1"
    by (simp add: g listing_log_ok_def)
  have part: "filter listing_event (?log uc) = ?l1 \<and>
     map event_action (?rest (?log uc)) =
       map Some (take (length (?rest (?log uc))) (planned E depth w folder output)) \<and>
     list_all (\<lambda>e. download_cookies e = None \<or> download_cookies e = Some uc) (?log uc)" for uc
  proof -
    from download_folder_log [of E depth w folder "output" opts uc] obtain l2 where
      l2: "?log uc = ?l1 @ l2" "list_all (download_event uc) l2"
        "map event_action l2 = map Some (take (length l2) (planned E depth w folder output))"
      by blast
    from l1 l2(2) have "filter listing_event (?l1 @ l2) = ?l1" "?rest (?l1 @ l2) = l2"
      by (rule filter_listing)+
    moreover from l1 l2(2)
    have "list_all (\<lambda>e. download_cookies e = None \<or> download_cookies e = Some uc) (?l1 @ l2)"
      by (auto simp: list_all_iff download_event_def dest: listing_event_cookies)
    ultimately show ?thesis using l2(1,3) by simp
  qed
  from part [of use_cookies] part [of "\<not> use_cookies"]
    download_folder_phases [of E depth w folder "output" opts use_cookies]
    download_folder_phases [of E depth w folder "output" opts "\<not> use_cookies"]
  show ?thesis by simp
qed

theorem listing_ignores_use_cookies_witness:
  "retrieval_phase (remote []) 3 [] (folders_url @ ''ROOT'') None =
     ([], Inr (Some (root_tree,
        [(JNull, [''root'', ''sub'']), (JStr ''A'', [''root'', ''sub'', ''fileA'']),
         (JStr ''B'', [''root'', ''sub'', ''fileB'']), (JStr ''C'', [''root'', ''fileC''])]))) \<and>
   download_folder (remote []) 3 [] (folders_url @ ''ROOT'') None () True =
     download_loop (remote []) () True []
        [(JNull, [''root'', ''sub'']), (JStr ''A'', [''root'', ''sub'', ''fileA'']),
         (JStr ''B'', [''root'', ''sub'', ''fileB'']), (JStr ''C'', [''root'', ''fileC''])] True \<and>
   download_folder (remote []) 3 [] (folders_url @ ''ROOT'') None () False =
     download_loop (remote []) () False []
        [(JNull, [''root'', ''sub'']), (JStr ''A'', [''root'', ''sub'', ''fileA'']),
         (JStr ''B'', [''root'', ''sub'', ''fileB'']), (JStr ''C'', [''root'', ''fileC''])] True \<and>
   filter listing_event
     (snd (fst (download_folder (logged (remote [])) 3 ([], []) (folders_url @ ''ROOT'') None ()
                  True))) =
   [EvGet (folders_url @ ''ROOT'') (Inr 200), EvClear,
    EvGet (folders_url @ ''SUB'') (Inr 200), EvClear] \<and>
   filter listing_event
     (snd (fst (download_folder (logged (remote [])) 3 ([], []) (folders_url @ ''ROOT'') None ()
                  False))) =
   [EvGet (folders_url @ ''ROOT'') (Inr 200), EvClear,
    EvGet (folders_url @ ''SUB'') (Inr 200), EvClear]"
proof -
  have log: "snd (fst (get_folder_list (logged (remote [])) 3 ([], []) (folders_url @ ''ROOT'') False))
          = [EvGet (folders_url @ ''ROOT'') (Inr 200), EvClear,
             EvGet (folders_url @ ''SUB'') (Inr 200), EvClear :: path event]"
    by code_simp
  have "path_cwd (remote []) [] = []" "path_join (remote []) [] ''root'' = [''root'']"
    "file_name root_tree = JStr ''root''"
    by code_simp+
  then have plan: "retrieval_phase (remote []) 3 [] (folders_url @ ''ROOT'') None =
     ([], Inr (Some (root_tree,
        [(JNull, [''root'', ''sub'']), (JStr ''A'', [''root'', ''sub'', ''fileA'']),
         (JStr ''B'', [''root'', ''sub'', ''fileB'']), (JStr ''C'', [''root'', ''fileC''])])))"
    by (simp add: retrieval_phase_def remote_root remote_root_plan
             del: get_folder_list.simps get_directory_structure.simps)
  from listing_ignores_use_cookies
         [of "remote []" 3 "[]" "folders_url @ ''ROOT''" None "()" True]
       listing_ignores_use_cookies
         [of "remote []" 3 "[]" "folders_url @ ''ROOT''" None "()" False]
  show ?thesis
    unfolding plan log by (simp del: download_loop.simps)
qed

end
